theory Spec2Isabelle
  imports Main "HOL-Library.Sublist" "HOL-Library.Log_Nat"
begin

section \<open>Data model\<close>

text \<open>
  Option values are scalars: a number or a string. Strict equality (\<open>===\<close>) of two scalars
  is equality of the constructor and of the payload, so \<open>Num 1\<close> and \<open>Str ''1''\<close> differ.
  A JavaScript object with scalar values is an association list in the enumeration order
  of its own keys; a property that may be \<open>undefined\<close> is an \<open>option\<close>.
\<close>

datatype scalar = Num int | Str string

type_synonym object = "(string \<times> scalar) list"

datatype error = Error string | TypeError

text \<open>A partition/path descriptor of \<open>copy\<close> and \<open>replace\<close>: \<open>{image, partition, path}\<close>.\<close>

record descriptor =
  image_d :: "string option"
  partition :: "object option"
  path :: "string option"

text \<open>
  An operation. \<open>from_desc\<close>, \<open>to_desc\<close> are the properties \<open>from\<close> and \<open>to\<close> of a \<open>copy\<close>;
  \<open>file_desc\<close>, \<open>find_op\<close>, \<open>replace_op\<close> the properties \<open>file\<close>, \<open>find\<close>, \<open>replace\<close> of a
  \<open>replace\<close>; \<open>script\<close>, \<open>arguments\<close> those of a \<open>run-script\<close>; \<open>image_op\<close> the property
  \<open>image\<close> of a \<open>burn\<close>.
\<close>

record operation =
  command :: string
  "when" :: "object option"
  from_desc :: "descriptor option"
  to_desc :: "descriptor option"
  file_desc :: "descriptor option"
  find_op :: "string option"
  replace_op :: "string option"
  script :: "string option"
  arguments :: "string list option"
  image_op :: "string option"

section \<open>utils: condition matching\<close>

subsection \<open>The lodash functions used\<close>

text \<open>\<open>_.isEmpty\<close>: true of \<open>undefined\<close> and of an object with no own key.\<close>

definition isEmpty :: "object option \<Rightarrow> bool" where
  "isEmpty v = (case v of None \<Rightarrow> True | Some kvs \<Rightarrow> kvs = [])"

text \<open>\<open>_.keys\<close>: the own keys in enumeration order; \<open>[]\<close> for \<open>undefined\<close>.\<close>

definition keys :: "object option \<Rightarrow> string list" where
  "keys v = (case v of None \<Rightarrow> [] | Some kvs \<Rightarrow> map fst kvs)"

text \<open>
  The predicate \<open>_.findWhere\<close> builds from its source (lodash 3, the last version with
  \<open>_.pluck\<close> and \<open>_.findWhere\<close>): every pair of the source is a property of the object with
  a strictly equal value; a \<open>null\<close> object matches only a source with no pair. The values
  are scalars, so a property inherited from \<open>Object.prototype\<close> never equals one.
\<close>

fun isMatch :: "object option \<Rightarrow> object option \<Rightarrow> bool" where
  "isMatch None source = (keys source = [])"
| "isMatch (Some obj) source =
     list_all (\<lambda>(k, v). map_of obj k = Some v)
       (case source of None \<Rightarrow> [] | Some kvs \<Rightarrow> kvs)"

text \<open>\<open>_.findWhere\<close>: the first element that matches, \<open>None\<close> (\<open>undefined\<close>) when there is none.\<close>

fun findWhere :: "object option list \<Rightarrow> object option \<Rightarrow> object option option" where
  "findWhere [] source = None"
| "findWhere (x # xs) source = (if isMatch x source then Some x else findWhere xs source)"

text \<open>\<open>_.difference\<close> keeps the elements of the first array that the second lacks, in order.\<close>

definition difference :: "'a list \<Rightarrow> 'a list \<Rightarrow> 'a list" where
  "difference xs ys = filter (\<lambda>x. x \<notin> set ys) xs"

text \<open>\<open>_.uniq\<close> keeps the first occurrence of every element, in order.\<close>

definition uniq :: "'a list \<Rightarrow> 'a list" where
  "uniq xs = foldl (\<lambda>seen x. if x \<in> set seen then seen else seen @ [x]) [] xs"

subsection \<open>utils.js\<close>

definition isObjectSubset :: "object option \<Rightarrow> object option \<Rightarrow> bool" where
  "isObjectSubset obj sub =
     (if obj \<noteq> None \<and> isEmpty sub then True
      else (case findWhere [obj] sub of
              None \<Rightarrow> False
            | Some found \<Rightarrow> found \<noteq> None))"

definition filterWhenMatches :: "operation list \<Rightarrow> object option \<Rightarrow> operation list" where
  "filterWhenMatches operations options =
     (let options = (case options of None \<Rightarrow> Some [] | Some opts \<Rightarrow> Some opts)
      in filter (\<lambda>operation. isObjectSubset options (when operation)) operations)"

definition getMissingOptions :: "operation list \<Rightarrow> object option \<Rightarrow> string list" where
  "getMissingOptions operations options =
     (let options = (case options of None \<Rightarrow> Some [] | Some opts \<Rightarrow> Some opts);
          usedOptions = concat (map keys (map when operations))
      in uniq (difference usedOptions (keys options)))"

text \<open>
  The signals a stream handle gives out, in the order they arrive: data on its \<open>stdout\<close> and
  \<open>stderr\<close> streams (a handle without the stream gives none), \<open>progress\<close>, and the four
  signals \<open>waitStreamToClose\<close> listens to. \<open>Sig_close None\<close> is a \<open>close\<close> without a code.
\<close>

datatype signal =
    Data_stdout string
  | Data_stderr string
  | Progress string
  | Sig_error error
  | Sig_end
  | Sig_done
  | Sig_close "int option"

text \<open>The state of the promise \<open>waitStreamToClose\<close> returns.\<close>

datatype completion = Resolved | Rejected error | Pending

text \<open>
  An exit code printed by string concatenation: it is an integer, far below the size from
  which numbers are printed with an exponent, so its decimal digits, with a minus sign when
  negative.
\<close>

fun show_nat :: "nat \<Rightarrow> string" where
  "show_nat n = (if n < 10 then [''0123456789'' ! n]
                 else show_nat (n div 10) @ [''0123456789'' ! (n mod 10)])"

definition show_int :: "int \<Rightarrow> string" where
  "show_int i = (if i < 0 then ''-'' @ show_nat (nat (- i)) else show_nat (nat i))"

text \<open>
  \<open>waitStreamToClose\<close>: the promise is settled by the first of \<open>error\<close>, \<open>end\<close>, \<open>done\<close> and
  \<open>close\<close> that arrives (a settled promise ignores every later \<open>resolve\<close> and \<open>reject\<close>);
  it stays pending when none arrives.
\<close>

fun waitStreamToClose :: "signal list \<Rightarrow> completion" where
  "waitStreamToClose [] = Pending"
| "waitStreamToClose (Sig_error e # rest) = Rejected e"
| "waitStreamToClose (Sig_end # rest) = Resolved"
| "waitStreamToClose (Sig_done # rest) = Resolved"
| "waitStreamToClose (Sig_close code # rest) =
     (case code of
        None \<Rightarrow> Resolved
      | Some c \<Rightarrow> if c \<noteq> 0 then Rejected (Error (''Exitted with error code: '' @ show_int c))
                  else Resolved)"
| "waitStreamToClose (other # rest) = waitStreamToClose rest"

section \<open>The collaborators\<close>

text \<open>
  What the program calls and does not define: \<open>os.platform\<close>, \<open>path.join\<close>, the image
  primitives of \<open>resin-image-fs\<close> and \<open>resin-image-write\<close>, \<open>fs\<close> and \<open>child_process\<close>.
  Each effectful call takes the index of the step that makes it, so that two equal calls of
  one run may answer differently. A call that gives a stream handle answers with the
  signals of the handle (\<open>Inr\<close>), or fails (\<open>Inl\<close>: it throws or its promise is rejected).
\<close>

record env =
  platform :: string
  pathJoin :: "string \<Rightarrow> string \<Rightarrow> string"
  imagefs_copy :: "nat \<Rightarrow> descriptor \<Rightarrow> descriptor \<Rightarrow> error + signal list"
  imagefs_replace ::
    "nat \<Rightarrow> descriptor \<Rightarrow> string option \<Rightarrow> string option \<Rightarrow> error + signal list"
  chmodAsync :: "nat \<Rightarrow> string \<Rightarrow> nat \<Rightarrow> error option"
  spawn :: "nat \<Rightarrow> string \<Rightarrow> string list \<Rightarrow> error + signal list"
  statAsync :: "nat \<Rightarrow> string \<Rightarrow> error + nat"
  imageWrite_write :: "nat \<Rightarrow> scalar \<Rightarrow> string \<Rightarrow> nat \<Rightarrow> error + signal list"

text \<open>The calls a command makes, in order. \<open>Write_image drive image length\<close> is
  \<open>imageWrite.write\<close> on the read stream of \<open>image\<close> with the given \<open>length\<close>.\<close>

datatype io =
    Imagefs_copy descriptor descriptor
  | Imagefs_replace descriptor "string option" "string option"
  | Chmod string nat
  | Spawn string "string list"
  | Stat string
  | Create_read_stream string
  | Write_image scalar string nat

definition getOperatingSystem :: "env \<Rightarrow> string" where
  "getOperatingSystem e = (if platform e = ''darwin'' then ''osx'' else platform e)"

section \<open>commands.js\<close>

text \<open>
  A command returns the operation as it leaves it (the commands assign to the properties of
  the operation they are given), the calls it made, and the handle or the failure.
  Reading a property of an \<open>undefined\<close> descriptor, and \<open>path.join\<close> on an \<open>undefined\<close>
  script, throw a \<open>TypeError\<close>.
\<close>

type_synonym invocation = "operation \<times> io list \<times> (error + signal list)"

definition default_image :: "string \<Rightarrow> descriptor \<Rightarrow> descriptor" where
  "default_image image_path d =
     (if image_d d = None then d\<lparr>image_d := Some image_path\<rparr> else d)"

definition copy :: "env \<Rightarrow> nat \<Rightarrow> string \<Rightarrow> operation \<Rightarrow> invocation" where
  "copy e t image_path operation =
     (case from_desc operation of
        None \<Rightarrow> (operation, [], Inl TypeError)
      | Some src \<Rightarrow>
          (let src' = default_image image_path src;
               operation1 = operation\<lparr>from_desc := Some src'\<rparr>
           in case to_desc operation1 of
                None \<Rightarrow> (operation1, [], Inl TypeError)
              | Some dst \<Rightarrow>
                  (let dst' = default_image image_path dst;
                       operation2 = operation1\<lparr>to_desc := Some dst'\<rparr>
                   in (operation2, [Imagefs_copy src' dst'], imagefs_copy e t src' dst'))))"

definition replace :: "env \<Rightarrow> nat \<Rightarrow> string \<Rightarrow> operation \<Rightarrow> invocation" where
  "replace e t image_path operation =
     (case file_desc operation of
        None \<Rightarrow> (operation, [], Inl TypeError)
      | Some f \<Rightarrow>
          (let f' = default_image image_path f;
               operation1 = operation\<lparr>file_desc := Some f'\<rparr>
           in (operation1,
               [Imagefs_replace f' (find_op operation1) (replace_op operation1)],
               imagefs_replace e t f' (find_op operation1) (replace_op operation1))))"

definition run_script :: "env \<Rightarrow> nat \<Rightarrow> string \<Rightarrow> operation \<Rightarrow> invocation" where
  "run_script e t image_path operation =
     (case script operation of
        None \<Rightarrow> (operation, [], Inl TypeError)
      | Some s \<Rightarrow>
          (let p = pathJoin e image_path s;
               operation1 = operation\<lparr>script := Some p\<rparr>;
               args = (case arguments operation1 of None \<Rightarrow> [] | Some a \<Rightarrow> a);
               operation2 = operation1\<lparr>arguments := Some args\<rparr>
           in case chmodAsync e t p 755 of
                Some err \<Rightarrow> (operation2, [Chmod p 755], Inl err)
              | None \<Rightarrow> (operation2, [Chmod p 755, Spawn p args], spawn e t p args)))"

definition burn :: "env \<Rightarrow> nat \<Rightarrow> string \<Rightarrow> operation \<Rightarrow> object option \<Rightarrow> invocation" where
  "burn e t image_path operation options =
     (let img = (case image_op operation of None \<Rightarrow> image_path | Some i \<Rightarrow> i);
          operation1 = operation\<lparr>image_op := Some img\<rparr>
      in case (case options of None \<Rightarrow> None | Some opts \<Rightarrow> map_of opts ''drive'') of
           None \<Rightarrow> (operation1, [], Inl (Error ''Missing drive option''))
         | Some drive \<Rightarrow>
             (case statAsync e t img of
                Inl err \<Rightarrow> (operation1, [Stat img], Inl err)
              | Inr sz \<Rightarrow>
                  (operation1,
                   [Stat img, Create_read_stream img, Write_image drive img sz],
                   imageWrite_write e t drive img sz)))"

section \<open>action.coffee\<close>

subsection \<open>Numbers\<close>

text \<open>
  A JavaScript number is an IEEE 754 binary64 value, and every arithmetic operation gives
  the exact result rounded to the nearest such value, ties to the even significand.
  \<open>fl\<close> is that rounding on the rationals, for the normal range (the numbers of this
  program lie between \<open>2\<^sup>-\<^sup>3\<^sup>2\<close> and \<open>1000\<close>): \<open>exponent x\<close> is the \<open>e\<close> with
  \<open>2\<^sup>e \<le> x < 2\<^sup>e\<^sup>+\<^sup>1\<close>, and the significand has 53 bits.
\<close>

definition exponent :: "rat \<Rightarrow> int" where
  "exponent x =
     (let (p, q) = quotient_of x;
          d = bitlen p - bitlen q
      in if 2 powi d \<le> x then d else d - 1)"

definition roundEven :: "rat \<Rightarrow> int" where
  "roundEven x =
     (let f = \<lfloor>x\<rfloor>; r = x - of_int f
      in if r < 1 / 2 then f
         else if 1 / 2 < r then f + 1
         else if even f then f else f + 1)"

definition fl :: "rat \<Rightarrow> rat" where
  "fl x =
     (if x = 0 then 0
      else (let u = 2 powi (exponent \<bar>x\<bar> - 52)
            in of_int (roundEven (x / u)) * u))"

text \<open>
  \<open>x.toFixed(1)\<close> prints the integer \<open>n\<close> for which \<open>n / 10\<close> is nearest to the exact value
  of \<open>x\<close>, the larger one of two, with a point before its last digit; \<open>toFixed1\<close> is
  that \<open>n\<close>. \<open>parseFloat\<close> of the string is the binary64 value nearest to \<open>n / 10\<close>.
\<close>

definition toFixed1 :: "rat \<Rightarrow> int" where
  "toFixed1 x = \<lfloor>x * 10 + 1 / 2\<rfloor>"

datatype number = Finite rat | Infinity

text \<open>Division by the length of an empty array gives \<open>Infinity\<close>, which the rest keeps.\<close>

definition getOperationProgress :: "nat \<Rightarrow> 'a list \<Rightarrow> number" where
  "getOperationProgress index operations =
     (if length operations = 0 then Infinity
      else (let progress = fl (fl (of_nat (index + 1) / of_nat (length operations)) * 100)
            in Finite (fl (of_int (toFixed1 progress) / 10))))"

subsection \<open>Dispatch\<close>

text \<open>
  \<open>commands[name]\<close> reads a property of the object that \<open>commands.js\<close> exports: its four own
  properties, and the properties every object inherits from \<open>Object.prototype\<close>, which are
  functions but for \<open>__proto__\<close>, an object.
\<close>

datatype action = Copy | Replace | Run_script | Burn | Inherited_function | Inherited_object

definition commands :: "string \<Rightarrow> action option" where
  "commands name =
     (if name = ''copy'' then Some Copy
      else if name = ''replace'' then Some Replace
      else if name = ''run-script'' then Some Run_script
      else if name = ''burn'' then Some Burn
      else if name \<in> set [''constructor'', ''hasOwnProperty'', ''isPrototypeOf'',
                ''propertyIsEnumerable'', ''toLocaleString'', ''toString'', ''valueOf'',
                ''__defineGetter__'', ''__defineSetter__'', ''__lookupGetter__'',
                ''__lookupSetter__'']
      then Some Inherited_function
      else if name = ''__proto__'' then Some Inherited_object
      else None)"

text \<open>
  Calling the bound action. An inherited function called with an image path, an operation
  and the options throws or returns a value without a \<open>then\<close>: a \<open>TypeError\<close>.
\<close>

definition call ::
    "action \<Rightarrow> env \<Rightarrow> nat \<Rightarrow> string \<Rightarrow> operation \<Rightarrow> object option \<Rightarrow> invocation" where
  "call a e t image_path operation options =
     (case a of
        Copy \<Rightarrow> copy e t image_path operation
      | Replace \<Rightarrow> replace e t image_path operation
      | Run_script \<Rightarrow> run_script e t image_path operation
      | Burn \<Rightarrow> burn e t image_path operation options
      | Inherited_function \<Rightarrow> (operation, [], Inl TypeError)
      | Inherited_object \<Rightarrow> (operation, [], Inl TypeError))"

text \<open>
  \<open>run\<close> throws for a name without an action; \<open>_.partial\<close> throws a \<open>TypeError\<close> for an action
  that is not a function, and otherwise binds the three arguments without calling it.
\<close>

definition run ::
    "env \<Rightarrow> string \<Rightarrow> operation \<Rightarrow> object option \<Rightarrow> error + (nat \<Rightarrow> invocation)" where
  "run e image_path operation options =
     (case commands (command operation) of
        None \<Rightarrow> Inl (Error (''Unknown command: '' @ command operation))
      | Some a \<Rightarrow>
          if a = Inherited_object then Inl TypeError
          else Inr (\<lambda>t. call a e t image_path operation options))"

section \<open>operations.js\<close>

datatype event =
    State operation number
  | Stdout string
  | Stderr string
  | Burn_progress string
  | Failure error
  | End

text \<open>The name an event is emitted under.\<close>

fun event_name :: "event \<Rightarrow> string" where
  "event_name (State operation percentage) = ''state''"
| "event_name (Stdout d) = ''stdout''"
| "event_name (Stderr d) = ''stderr''"
| "event_name (Burn_progress st) = ''burn''"
| "event_name (Failure err) = ''error''"
| "event_name End = ''end''"

text \<open>
  What a run does, in order: it emits an event, it calls the bound action of the step with
  the given index, the action calls a collaborator.
\<close>

datatype observation = Emit event | Invoke nat | Call io

text \<open>
  The listeners \<open>execute\<close> puts on a handle emit \<open>stdout\<close>, \<open>stderr\<close> and \<open>burn\<close> for the
  signals that arrive before the one that settles \<open>waitStreamToClose\<close>, where the handle's
  signals end as far as the run is concerned.
\<close>

fun forward :: "signal list \<Rightarrow> event list" where
  "forward [] = []"
| "forward (Data_stdout d # rest) = Stdout d # forward rest"
| "forward (Data_stderr d # rest) = Stderr d # forward rest"
| "forward (Progress st # rest) = Burn_progress st # forward rest"
| "forward (settling # rest) = []"

text \<open>\<open>_.map\<close> with a function that may throw: the first throw ends it.\<close>

fun map_throwing :: "('a \<Rightarrow> error + 'b) \<Rightarrow> 'a list \<Rightarrow> error + 'b list" where
  "map_throwing f [] = Inr []"
| "map_throwing f (x # xs) =
     (case f x of
        Inl err \<Rightarrow> Inl err
      | Inr y \<Rightarrow>
          (case map_throwing f xs of Inl err \<Rightarrow> Inl err | Inr ys \<Rightarrow> Inr (y # ys)))"

text \<open>
  \<open>Promise.each\<close> over the bound actions, from the step \<open>index\<close> on; each is paired with the
  element of the filtered operations it was bound to, which is \<open>operations[index]\<close>.
  The operations of a list are taken to be objects of their own: a step does not see what
  an earlier step assigned to its operation.
\<close>

fun each :: "operation list \<Rightarrow> nat \<Rightarrow> ((nat \<Rightarrow> invocation) \<times> operation) list
    \<Rightarrow> observation list \<times> completion" where
  "each operations index [] = ([], Resolved)"
| "each operations index ((promise, operation) # rest) =
     (let state = State operation (getOperationProgress index operations);
          (operation', calls, result) = promise index;
          seen = Emit state # Invoke index # map Call calls
      in case result of
           Inl err \<Rightarrow> (seen, Rejected err)
         | Inr actionEvent \<Rightarrow>
             (case waitStreamToClose actionEvent of
                Resolved \<Rightarrow>
                  (let (seen', r) = each operations (Suc index) rest
                   in (seen @ map Emit (forward actionEvent) @ seen', r))
              | Rejected err \<Rightarrow> (seen @ map Emit (forward actionEvent), Rejected err)
              | Pending \<Rightarrow> (seen @ map Emit (forward actionEvent), Pending)))"

text \<open>
  A run: what it did, how the promise chain ended (\<open>Pending\<close>: a step never completed),
  whether \<open>emitter.on\<close> was replaced, and the flag \<open>emitter.ended\<close>.
\<close>

record execution =
  trace :: "observation list"
  outcome :: completion
  on_patched :: bool
  ended :: bool

text \<open>The body of \<open>Promise.try\<close> with its \<open>then\<close> and \<open>catch\<close>.\<close>

definition pipeline :: "env \<Rightarrow> string \<Rightarrow> operation list \<Rightarrow> object \<Rightarrow> execution" where
  "pipeline e image_path operations options =
     (let operations' = filterWhenMatches operations (Some options)
      in case map_throwing (\<lambda>operation. run e image_path operation (Some options))
                operations' of
           Inl err \<Rightarrow>
             \<lparr>trace = [Emit (Failure err)], outcome = Rejected err,
              on_patched = False, ended = False\<rparr>
         | Inr promises \<Rightarrow>
             (case each operations' 0 (zip promises operations') of
                (seen, Resolved) \<Rightarrow>
                  \<lparr>trace = seen @ [Emit End], outcome = Resolved,
                   on_patched = True, ended = True\<rparr>
              | (seen, Rejected err) \<Rightarrow>
                  \<lparr>trace = seen @ [Emit (Failure err)], outcome = Rejected err,
                   on_patched = True, ended = False\<rparr>
              | (seen, Pending) \<Rightarrow>
                  \<lparr>trace = seen, outcome = Pending, on_patched = True, ended = False\<rparr>))"

text \<open>The options \<open>execute\<close> works with: \<open>{}\<close> for none, and \<open>os\<close> set when it is not.\<close>

definition effective_options :: "env \<Rightarrow> object option \<Rightarrow> object" where
  "effective_options e options =
     (let options = (case options of None \<Rightarrow> [] | Some opts \<Rightarrow> opts)
      in if map_of options ''os'' = None then options @ [(''os'', Str (getOperatingSystem e))]
         else options)"

text \<open>
  \<open>Array.prototype.join\<close> and \<open>toSentence\<close> of underscore.string with its defaults. Of the
  empty array \<open>toSentence\<close> gives \<open>undefined\<close>, which a string concatenation prints as
  \<open>undefined\<close>; \<open>execute\<close> calls it with missing options only.
\<close>

fun join :: "string \<Rightarrow> string list \<Rightarrow> string" where
  "join sep [] = []"
| "join sep [x] = x"
| "join sep (x # y # ys) = x @ sep @ join sep (y # ys)"

fun toSentence :: "string list \<Rightarrow> string" where
  "toSentence [] = ''undefined''"
| "toSentence [x] = x"
| "toSentence (x # y # ys) =
     join '', '' (butlast (x # y # ys)) @ '' and '' @ last (x # y # ys)"

text \<open>\<open>execute\<close> throws (\<open>Inl\<close>) or returns the emitter of a run (\<open>Inr\<close>).\<close>

definition execute ::
    "env \<Rightarrow> string \<Rightarrow> operation list \<Rightarrow> object option \<Rightarrow> error + execution" where
  "execute e image_path operations options =
     (let options = effective_options e options;
          missingOptions = getMissingOptions operations (Some options)
      in if missingOptions \<noteq> []
         then Inl (Error (''Missing options: '' @ toSentence missingOptions))
         else Inr (pipeline e image_path operations options))"

text \<open>
  \<open>emitter.on(event, callback)\<close> on the emitter of a finished run: the replaced \<open>on\<close> calls
  the callback at once for \<open>end\<close> when \<open>emitter.ended\<close> is set; otherwise the callback is
  added to the listeners, to be called when the event is next emitted.
\<close>

datatype subscription = Called | Listening

definition emitter_on :: "execution \<Rightarrow> string \<Rightarrow> subscription" where
  "emitter_on ex name =
     (if on_patched ex \<and> name = ''end'' \<and> ended ex then Called else Listening)"

section \<open>Notions the properties are stated with\<close>

text \<open>
  The condition of a \<open>when\<close> clause as the specification words it: every key of the clause
  is a key of the options with a strictly equal value; an absent clause asks nothing.
\<close>

definition when_holds :: "object \<Rightarrow> object option \<Rightarrow> bool" where
  "when_holds options w =
     (case w of None \<Rightarrow> True | Some kvs \<Rightarrow> (\<forall>(k, v) \<in> set kvs. map_of options k = Some v))"

text \<open>The signals \<open>waitStreamToClose\<close> has a listener for.\<close>

fun settles :: "signal \<Rightarrow> bool" where
  "settles (Sig_error err) = True"
| "settles Sig_end = True"
| "settles Sig_done = True"
| "settles (Sig_close code) = True"
| "settles other = False"

text \<open>An operation with a command and a \<open>when\<close> clause and no other property.\<close>

definition bare_operation :: "string \<Rightarrow> object option \<Rightarrow> operation" where
  "bare_operation name w =
     \<lparr>command = name, when = w, from_desc = None, to_desc = None, file_desc = None,
      find_op = None, replace_op = None, script = None, arguments = None, image_op = None\<rparr>"

text \<open>The argument list a \<open>run-script\<close> spawns its script with: \<open>[]\<close> when the operation has none.\<close>

definition script_arguments :: "operation \<Rightarrow> string list" where
  "script_arguments operation = (case arguments operation of None \<Rightarrow> [] | Some a \<Rightarrow> a)"

text \<open>
  An environment for the examples: every collaborator succeeds, \<open>path.join\<close> of two plain
  relative paths puts a slash between them, a spawned script prints and exits with code 0.
\<close>

definition example_env :: env where
  "example_env =
     \<lparr>platform = ''linux'',
      pathJoin = (\<lambda>a b. a @ ''/'' @ b),
      imagefs_copy = (\<lambda>t src dst. Inr [Sig_end]),
      imagefs_replace = (\<lambda>t f a b. Inr [Sig_end]),
      chmodAsync = (\<lambda>t p mode. None),
      spawn = (\<lambda>t p args. Inr [Data_stdout ''hello'', Sig_close (Some 0)]),
      statAsync = (\<lambda>t p. Inr 1024),
      imageWrite_write = (\<lambda>t drive i n. Inr [Progress ''50'', Sig_done])\<rparr>"

text \<open>The elements of a list in the order of their first occurrences.\<close>

fun first_seen :: "'a list \<Rightarrow> 'a list" where
  "first_seen [] = []"
| "first_seen (x # xs) = x # first_seen (filter (\<lambda>y. y \<noteq> x) xs)"

text \<open>The keys of the \<open>when\<close> clauses of the operations, in order, with repetitions.\<close>

definition when_keys :: "operation list \<Rightarrow> string list" where
  "when_keys operations = concat (map (\<lambda>operation. keys (when operation)) operations)"

text \<open>
  The observations that tell how a run went: the \<open>state\<close>, \<open>error\<close> and \<open>end\<close> events and the
  calls of the bound actions; \<open>lifecycle\<close> drops the output events and the collaborator calls.
\<close>

fun lifecycle_event :: "observation \<Rightarrow> bool" where
  "lifecycle_event (Emit (State operation percentage)) = True"
| "lifecycle_event (Emit (Failure err)) = True"
| "lifecycle_event (Emit End) = True"
| "lifecycle_event (Invoke index) = True"
| "lifecycle_event other = False"

definition lifecycle :: "observation list \<Rightarrow> observation list" where
  "lifecycle obs = filter lifecycle_event obs"

text \<open>
  What the steps from \<open>index\<close> on are expected to show: for each operation its \<open>state\<close> event,
  with the progress of its index among all the operations, and then its call.
\<close>

fun expected :: "operation list \<Rightarrow> nat \<Rightarrow> operation list \<Rightarrow> observation list" where
  "expected operations index [] = []"
| "expected operations index (operation # rest) =
     Emit (State operation (getOperationProgress index operations)) # Invoke index
       # expected operations (Suc index) rest"

text \<open>
  A step completes: the operation is bound to an action, the call gives a handle, and
  \<open>waitStreamToClose\<close> on the handle is resolved. \<open>all_complete\<close>: every step does, each at
  its index.
\<close>

definition step_completes :: "env \<Rightarrow> string \<Rightarrow> object \<Rightarrow> nat \<Rightarrow> operation \<Rightarrow> bool" where
  "step_completes e image_path options index operation =
     (case run e image_path operation (Some options) of
        Inl err \<Rightarrow> False
      | Inr promise \<Rightarrow>
          (case snd (snd (promise index)) of
             Inl err \<Rightarrow> False
           | Inr actionEvent \<Rightarrow> waitStreamToClose actionEvent = Resolved))"

fun all_complete :: "env \<Rightarrow> string \<Rightarrow> object \<Rightarrow> nat \<Rightarrow> operation list \<Rightarrow> bool" where
  "all_complete e image_path options index [] = True"
| "all_complete e image_path options index (operation # rest) =
     (step_completes e image_path options index operation
      \<and> all_complete e image_path options (Suc index) rest)"

text \<open>The operations of the \<open>state\<close> events of a trace, in order.\<close>

fun state_operations :: "observation list \<Rightarrow> operation list" where
  "state_operations [] = []"
| "state_operations (Emit (State operation percentage) # rest) = operation # state_operations rest"
| "state_operations (other # rest) = state_operations rest"

text \<open>Two operations for the examples.\<close>

definition example_copy :: operation where
  "example_copy =
     (bare_operation ''copy'' None)
       \<lparr>from_desc := Some \<lparr>image_d = None, partition = Some [(''primary'', Num 1)],
                            path = Some ''/foo''\<rparr>,
        to_desc := Some \<lparr>image_d = None, partition = Some [(''primary'', Num 4)],
                          path = Some ''/bar''\<rparr>\<rparr>"

definition example_script :: operation where
  "example_script = (bare_operation ''run-script'' None)\<lparr>script := Some ''run.sh''\<rparr>"

text \<open>
  The number of tenths \<open>toFixed(1)\<close> prints for the step \<open>index\<close> of \<open>n\<close> steps; the progress of
  the step is the binary64 value nearest to that many tenths.
\<close>

definition tenths :: "nat \<Rightarrow> nat \<Rightarrow> int" where
  "tenths index n = toFixed1 (fl (fl (of_nat (index + 1) / of_nat n) * 100))"

text \<open>The percentages of the \<open>state\<close> events of a trace, in order.\<close>

fun percentages :: "observation list \<Rightarrow> number list" where
  "percentages [] = []"
| "percentages (Emit (State operation percentage) # rest) = percentage # percentages rest"
| "percentages (other # rest) = percentages rest"

text \<open>The indices of the steps whose action a trace shows called, in order.\<close>

fun invoked :: "observation list \<Rightarrow> nat list" where
  "invoked [] = []"
| "invoked (Invoke index # rest) = index # invoked rest"
| "invoked (other # rest) = invoked rest"

section \<open>Condition matching\<close>

lemma isObjectSubset_Some: "isObjectSubset (Some options) w = when_holds options w"
  by (cases w) (auto simp: isObjectSubset_def isEmpty_def when_holds_def list_all_iff keys_def)

lemma filterWhenMatches_eq:
  "filterWhenMatches operations options =
     filter (\<lambda>operation. when_holds (case options of None \<Rightarrow> [] | Some opts \<Rightarrow> opts)
       (when operation)) operations"
  by (cases options) (simp_all add: filterWhenMatches_def isObjectSubset_Some)

lemma when_holds_isEmpty: "isEmpty w \<Longrightarrow> when_holds options w"
  by (auto simp: when_holds_def isEmpty_def split: option.splits)

lemma when_holds_no_options: "\<not> isEmpty w \<Longrightarrow> \<not> when_holds [] w"
  by (cases w; cases "the w") (auto simp: when_holds_def isEmpty_def)

lemma when_holds_strict:
  "when_holds options (Some [(k, Num n)]) \<Longrightarrow> map_of options k \<noteq> Some (Str s)"
  by (simp add: when_holds_def)

text \<open>
  C2. \<open>filterWhenMatches\<close> keeps exactly the operations whose \<open>when\<close> clause holds of the
  options (no options given count as the empty options): every pair of the clause is a pair
  of the options, equal in value and in type. An operation whose clause is absent or empty
  is kept whatever the options are; an operation with a non-empty clause is not kept when
  the options are empty; a clause asking for the number \<open>n\<close> is not met by an option that is
  a string.
\<close>

theorem filterWhenMatches_keeps_subsets:
  "filterWhenMatches operations options =
     filter (\<lambda>operation. when_holds (case options of None \<Rightarrow> [] | Some opts \<Rightarrow> opts)
       (when operation)) operations
   \<and> (\<forall>operation \<in> set operations. isEmpty (when operation) \<longrightarrow>
         operation \<in> set (filterWhenMatches operations options))
   \<and> (\<forall>operation \<in> set operations. \<not> isEmpty (when operation) \<and> keys options = [] \<longrightarrow>
         operation \<notin> set (filterWhenMatches operations options))
   \<and> (\<forall>operation \<in> set operations. \<forall>k n s.
         when operation = Some [(k, Num n)]
         \<and> map_of (case options of None \<Rightarrow> [] | Some opts \<Rightarrow> opts) k = Some (Str s) \<longrightarrow>
         operation \<notin> set (filterWhenMatches operations options))"
  unfolding filterWhenMatches_eq
  by (cases options)
    (auto simp: when_holds_isEmpty when_holds_no_options keys_def dest: when_holds_strict)

theorem filterWhenMatches_keeps_subsets_witness:
  "filterWhenMatches
     [bare_operation ''foo'' (Some [(''foo'', Num 1)]),
      bare_operation ''bar'' (Some [(''foo'', Num 2)]),
      bare_operation ''baz'' None]
     (Some [(''foo'', Num 1)])
   = [bare_operation ''foo'' (Some [(''foo'', Num 1)]), bare_operation ''baz'' None]
   \<and> filterWhenMatches
     [bare_operation ''foo'' (Some [(''foo'', Num 1)]),
      bare_operation ''bar'' (Some [(''foo'', Num 2)]),
      bare_operation ''baz'' None]
     (Some [(''foo'', Str ''1'')])
   = [bare_operation ''baz'' None]"
  using filterWhenMatches_keeps_subsets
    [of "[bare_operation ''foo'' (Some [(''foo'', Num 1)]),
          bare_operation ''bar'' (Some [(''foo'', Num 2)]),
          bare_operation ''baz'' None]" "Some [(''foo'', Num 1)]"]
    filterWhenMatches_keeps_subsets
    [of "[bare_operation ''foo'' (Some [(''foo'', Num 1)]),
          bare_operation ''bar'' (Some [(''foo'', Num 2)]),
          bare_operation ''baz'' None]" "Some [(''foo'', Str ''1'')]"]
  by (simp add: when_holds_def bare_operation_def)

section \<open>Completion of a stream handle\<close>

lemma waitStreamToClose_skip:
  "\<not> list_ex settles before \<Longrightarrow> waitStreamToClose (before @ rest) = waitStreamToClose rest"
proof (induction before)
  case Nil
  then show ?case by simp
next
  case (Cons s before)
  then show ?case by (cases s) simp_all
qed

text \<open>
  C8. On a handle given to \<open>waitStreamToClose\<close>, the first of the signals it listens to
  decides the completion: a \<open>close\<close> with a code other than 0 rejects it with an error whose
  message ends with the code; a \<open>close\<close> with the code 0 or with no code, an \<open>end\<close> and a
  \<open>done\<close> resolve it; an \<open>error\<close> rejects it with the error given.
\<close>

theorem waitStreamToClose_first_signal:
  assumes "\<not> list_ex settles before"
  shows "(c \<noteq> 0 \<longrightarrow> waitStreamToClose (before @ Sig_close (Some c) # later)
            = Rejected (Error (''Exitted with error code: '' @ show_int c)))
       \<and> waitStreamToClose (before @ Sig_close (Some 0) # later) = Resolved
       \<and> waitStreamToClose (before @ Sig_close None # later) = Resolved
       \<and> waitStreamToClose (before @ Sig_end # later) = Resolved
       \<and> waitStreamToClose (before @ Sig_done # later) = Resolved
       \<and> waitStreamToClose (before @ Sig_error err # later) = Rejected err"
  using assms by (simp add: waitStreamToClose_skip)

theorem waitStreamToClose_first_signal_witness:
  "waitStreamToClose [Data_stdout ''out'', Progress ''half'', Sig_close (Some 1), Sig_end]
     = Rejected (Error ''Exitted with error code: 1'')
   \<and> waitStreamToClose [Data_stdout ''out'', Progress ''half'', Sig_close (Some 0), Sig_end]
       = Resolved
   \<and> waitStreamToClose [Data_stdout ''out'', Progress ''half'', Sig_close None, Sig_end]
       = Resolved
   \<and> waitStreamToClose [Data_stdout ''out'', Progress ''half'', Sig_end, Sig_end] = Resolved
   \<and> waitStreamToClose [Data_stdout ''out'', Progress ''half'', Sig_done, Sig_end] = Resolved
   \<and> waitStreamToClose [Data_stdout ''out'', Progress ''half'', Sig_error TypeError, Sig_end]
       = Rejected TypeError"
  using waitStreamToClose_first_signal
    [of "[Data_stdout ''out'', Progress ''half'']" 1 "[Sig_end]" TypeError]
  by (simp add: show_int_def)

section \<open>The commands\<close>

lemma example_env_simps:
  "pathJoin example_env a b = a @ ''/'' @ b"
  "chmodAsync example_env t p mode = None"
  "spawn example_env t p args = Inr [Data_stdout ''hello'', Sig_close (Some 0)]"
  "statAsync example_env t p = Inr 1024"
  "imagefs_copy example_env t src dst = Inr [Sig_end]"
  "imagefs_replace example_env t f x y = Inr [Sig_end]"
  "imageWrite_write example_env t drive i n = Inr [Progress ''50'', Sig_done]"
  "platform example_env = ''linux''"
  by (simp_all add: example_env_def)

lemma t1: "script ((bare_operation ''run-script'' None)\<lparr>script := Some ''run.sh''\<rparr>) = Some ''run.sh''"
  by simp

lemma t2: "script_arguments ((bare_operation ''run-script'' None)\<lparr>script := Some ''run.sh''\<rparr>) = []" 
  by (simp add: script_arguments_def bare_operation_def)

text \<open>
  C7. \<open>burn\<close> with options that have no \<open>drive\<close>, or with no options at all, fails with the
  error \<open>Missing drive option\<close> and has called no collaborator: the image is not stat'ed and
  no read stream is opened.
\<close>

theorem burn_without_drive:
  assumes "''drive'' \<notin> set (keys options)"
  shows "snd (burn e t image_path operation options)
           = ([], Inl (Error ''Missing drive option''))"
proof -
  from assms
  have "(case options of None \<Rightarrow> None | Some opts \<Rightarrow> map_of opts ''drive'') = None"
    by (cases options) (simp_all add: keys_def map_of_eq_None_iff)
  then show ?thesis by (simp add: burn_def)
qed

theorem burn_without_drive_witness:
  "snd (burn example_env 0 ''foo/bar.img'' (bare_operation ''burn'' None) (Some [(''os'', Str ''linux'')]))
     = ([], Inl (Error ''Missing drive option''))
   \<and> snd (burn example_env 0 ''foo/bar.img'' (bare_operation ''burn'' None) None)
     = ([], Inl (Error ''Missing drive option''))"
  using burn_without_drive [of "Some [(''os'', Str ''linux'')]" example_env 0 "''foo/bar.img''" "bare_operation ''burn'' None"]
    burn_without_drive [of None example_env 0 "''foo/bar.img''" "bare_operation ''burn'' None"]
  by (simp add: keys_def)

text \<open>
  C10. A \<open>run-script\<close> whose operation has a script \<open>s\<close> leaves the operation with the script
  \<open>path.join(image, s)\<close> and with its arguments, \<open>[]\<close> when it had none; whatever it spawns is
  that joined path with those arguments; and when \<open>chmod\<close> succeeds it calls \<open>chmod\<close> on the
  joined path and then spawns it.
\<close>

theorem run_script_joined:
  assumes "script operation = Some s"
  shows "fst (run_script e t image_path operation)
           = operation\<lparr>script := Some (pathJoin e image_path s),
                        arguments := Some (script_arguments operation)\<rparr>
       \<and> (\<forall>p a. Spawn p a \<in> set (fst (snd (run_script e t image_path operation))) \<longrightarrow>
             p = pathJoin e image_path s \<and> a = script_arguments operation)
       \<and> (chmodAsync e t (pathJoin e image_path s) 755 = None \<longrightarrow>
             snd (run_script e t image_path operation)
               = ([Chmod (pathJoin e image_path s) 755,
                   Spawn (pathJoin e image_path s) (script_arguments operation)],
                  spawn e t (pathJoin e image_path s) (script_arguments operation)))"
  using assms by (auto simp: run_script_def script_arguments_def Let_def split: option.splits)

theorem run_script_joined_witness:
  "run_script example_env 0 ''foo/bar.img'' ((bare_operation ''run-script'' None)\<lparr>script := Some ''run.sh''\<rparr>)
     = ((bare_operation ''run-script'' None)\<lparr>script := Some ''foo/bar.img/run.sh'', arguments := Some []\<rparr>,
        [Chmod ''foo/bar.img/run.sh'' 755, Spawn ''foo/bar.img/run.sh'' []],
        Inr [Data_stdout ''hello'', Sig_close (Some 0)])"
proof -
  let ?op = "(bare_operation ''run-script'' None)\<lparr>script := Some ''run.sh''\<rparr>"
  have s: "script ?op = Some ''run.sh''" by simp
  have a: "script_arguments ?op = []" by (simp add: script_arguments_def bare_operation_def)
  note r = run_script_joined [OF s, of example_env 0 "''foo/bar.img''"]
  from r [THEN conjunct1]
  have 1: "fst (run_script example_env 0 ''foo/bar.img'' ?op)
      = ?op\<lparr>script := Some ''foo/bar.img/run.sh'', arguments := Some []\<rparr>"
    by (simp add: a example_env_simps)
  from r [THEN conjunct2, THEN conjunct2]
  have 2: "snd (run_script example_env 0 ''foo/bar.img'' ?op)
      = ([Chmod ''foo/bar.img/run.sh'' 755, Spawn ''foo/bar.img/run.sh'' []],
         Inr [Data_stdout ''hello'', Sig_close (Some 0)])"
    by (simp add: a example_env_simps)
  from 1 2 show ?thesis by (simp add: prod_eq_iff)
qed

text \<open>
  C9, as the code has it. A command changes the operation it is given in these ways only:
  \<open>copy\<close> and \<open>replace\<close> give the image path to a descriptor (\<open>from\<close>, \<open>to\<close>, \<open>file\<close>) that has no
  image; \<open>burn\<close> gives it to the operation itself when that has no image; \<open>run-script\<close>
  replaces the script by \<open>path.join(image, script)\<close> and sets the arguments to \<open>[]\<close> when
  there are none. The command, the \<open>when\<close> clause, \<open>find\<close> and \<open>replace\<close> are never changed.
\<close>

theorem commands_change_only:
  "fst (call a e t image_path operation options) =
     (case a of
        Copy \<Rightarrow>
          (case from_desc operation of
             None \<Rightarrow> operation
           | Some src \<Rightarrow>
               operation\<lparr>from_desc := Some (default_image image_path src),
                          to_desc := map_option (default_image image_path) (to_desc operation)\<rparr>)
      | Replace \<Rightarrow>
          operation\<lparr>file_desc := map_option (default_image image_path) (file_desc operation)\<rparr>
      | Run_script \<Rightarrow>
          (case script operation of
             None \<Rightarrow> operation
           | Some s \<Rightarrow>
               operation\<lparr>script := Some (pathJoin e image_path s),
                          arguments := Some (script_arguments operation)\<rparr>)
      | Burn \<Rightarrow>
          operation\<lparr>image_op :=
            Some (case image_op operation of None \<Rightarrow> image_path | Some i \<Rightarrow> i)\<rparr>
      | Inherited_function \<Rightarrow> operation
      | Inherited_object \<Rightarrow> operation)
   \<and> default_image image_path d
       = d\<lparr>image_d := Some (case image_d d of None \<Rightarrow> image_path | Some i \<Rightarrow> i)\<rparr>
   \<and> command (fst (call a e t image_path operation options)) = command operation
   \<and> when (fst (call a e t image_path operation options)) = when operation
   \<and> find_op (fst (call a e t image_path operation options)) = find_op operation
   \<and> replace_op (fst (call a e t image_path operation options)) = replace_op operation"
  by (cases a)
    (auto simp: call_def copy_def replace_def run_script_def burn_def default_image_def
      script_arguments_def Let_def split: option.splits sum.splits)

text \<open>
  C9 as stated fails: after a \<open>run-script\<close> on an operation with the script \<open>run.sh\<close> and no
  arguments, the operation's script is the joined path and its arguments are \<open>[]\<close>.
\<close>

theorem run_script_changes_operation:
  "script ((bare_operation ''run-script'' None)\<lparr>script := Some ''run.sh''\<rparr>) = Some ''run.sh''
   \<and> arguments ((bare_operation ''run-script'' None)\<lparr>script := Some ''run.sh''\<rparr>) = None
   \<and> script (fst (call Run_script example_env 0 ''foo/bar.img''
         ((bare_operation ''run-script'' None)\<lparr>script := Some ''run.sh''\<rparr>) None))
       = Some ''foo/bar.img/run.sh''
   \<and> arguments (fst (call Run_script example_env 0 ''foo/bar.img''
         ((bare_operation ''run-script'' None)\<lparr>script := Some ''run.sh''\<rparr>) None))
       = Some []"
  by (simp add: call_def run_script_def bare_operation_def example_env_simps Let_def)

section \<open>Missing options\<close>

lemma uniq_foldl:
  "foldl (\<lambda>seen x. if x \<in> set seen then seen else seen @ [x]) acc xs
     = acc @ first_seen (filter (\<lambda>x. x \<notin> set acc) xs)"
proof (induction xs arbitrary: acc)
  case Nil
  then show ?case by simp
next
  case (Cons x xs)
  have "filter (\<lambda>y. y \<noteq> x \<and> y \<notin> set acc) xs = filter (\<lambda>y. y \<notin> set acc \<and> y \<noteq> x) xs"
    by (rule filter_cong) auto
  with Cons show ?case by simp
qed

lemma uniq_first_seen: "uniq xs = first_seen xs"
  by (simp add: uniq_def uniq_foldl)

lemma set_first_seen: "set (first_seen xs) = set xs"
  by (induction xs rule: first_seen.induct) auto

lemma distinct_first_seen: "distinct (first_seen xs)"
  by (induction xs rule: first_seen.induct) (auto simp: set_first_seen)

lemma getMissingOptions_eq:
  "getMissingOptions operations (Some options)
     = first_seen (filter (\<lambda>k. k \<notin> fst ` set options) (when_keys operations))"
  by (simp add: getMissingOptions_def uniq_first_seen difference_def keys_def when_keys_def
      map_map comp_def)

lemma sublist_in_right: "sublist k ys \<Longrightarrow> sublist k (xs @ ys)"
proof -
  assume "sublist k ys"
  then obtain ps ss where "ys = ps @ k @ ss" by (auto simp: sublist_def)
  then have "xs @ ys = (xs @ ps) @ k @ ss" by simp
  then show ?thesis unfolding sublist_def by blast
qed

lemma sublist_in_left: "sublist k xs \<Longrightarrow> sublist k (xs @ ys)"
proof -
  assume "sublist k xs"
  then obtain ps ss where "xs = ps @ k @ ss" by (auto simp: sublist_def)
  then have "xs @ ys = ps @ k @ (ss @ ys)" by simp
  then show ?thesis unfolding sublist_def by blast
qed

lemma sublist_join: "k \<in> set xs \<Longrightarrow> sublist k (join sep xs)"
proof (induction sep xs rule: join.induct)
  case (1 sep)
  then show ?case by simp
next
  case (2 sep x)
  then show ?case by simp
next
  case (3 sep x y ys)
  show ?case
  proof (cases "k = x")
    case True
    then show ?thesis by simp
  next
    case False
    with 3 have "sublist k (join sep (y # ys))" by simp
    then have "sublist k ((x @ sep) @ join sep (y # ys))" by (rule sublist_in_right)
    then show ?thesis by simp
  qed
qed

lemma sublist_toSentence: "k \<in> set xs \<Longrightarrow> sublist k (toSentence xs)"
proof (induction xs rule: toSentence.induct)
  case 1
  then show ?case by simp
next
  case (2 x)
  then show ?case by simp
next
  case (3 x y ys)
  let ?l = "x # y # ys"
  have "?l = butlast ?l @ [last ?l]" by (rule append_butlast_last_id [symmetric]) simp
  with 3 have "k \<in> set (butlast ?l) \<or> k = last ?l"
    by (metis Un_iff empty_iff empty_set set_ConsD set_append)
  then show ?case
  proof
    assume "k \<in> set (butlast ?l)"
    then have "sublist k (join '', '' (butlast ?l))" by (rule sublist_join)
    then have "sublist k (join '', '' (butlast ?l) @ ('' and '' @ last ?l))"
      by (rule sublist_in_left)
    then show ?thesis by (simp only: toSentence.simps)
  next
    assume "k = last ?l"
    then have "sublist k ((join '', '' (butlast ?l) @ '' and '') @ last ?l)"
      by (simp only: sublist_append_leftI)
    then show ?thesis by (simp only: toSentence.simps append_assoc)
  qed
qed

lemma sublist_message: "k \<in> set xs \<Longrightarrow> sublist k (''Missing options: '' @ toSentence xs)"
  by (rule sublist_in_right) (rule sublist_toSentence)

lemma effective_options_keys:
  "fst ` set (effective_options e options) = insert ''os'' (set (keys options))"
  by (cases options)
    (auto simp: effective_options_def keys_def Let_def map_of_eq_None_iff
      dest: weak_map_of_SomeI)

text \<open>
  C4. \<open>execute\<close> throws, returning no emitter and running no step, if and only if the
  missing options are not empty. The missing options are the keys of the \<open>when\<close> clauses of
  the operations, each once, in the order they are first seen, without the keys of the
  options, which for \<open>execute\<close> are the options it was given with \<open>os\<close> filled in when it was
  not given: that is the object \<open>getMissingOptions\<close> receives. The error thrown has the
  message \<open>Missing options: \<close> followed by the sentence of the missing names, so that each
  missing name stands in it.
\<close>

theorem execute_throws_iff_missing:
  "(\<exists>err. execute e image_path operations options = Inl err)
     = (getMissingOptions operations (Some (effective_options e options)) \<noteq> [])
   \<and> (\<forall>err. execute e image_path operations options = Inl err \<longrightarrow>
         err = Error (''Missing options: ''
                 @ toSentence (getMissingOptions operations (Some (effective_options e options))))
         \<and> (\<forall>k \<in> set (getMissingOptions operations (Some (effective_options e options))).
               \<exists>msg. err = Error msg \<and> sublist k msg))
   \<and> getMissingOptions operations (Some (effective_options e options))
       = first_seen (filter (\<lambda>k. k \<notin> insert ''os'' (set (keys options))) (when_keys operations))
   \<and> distinct (getMissingOptions operations (Some (effective_options e options)))
   \<and> set (getMissingOptions operations (Some (effective_options e options)))
       = set (when_keys operations) - insert ''os'' (set (keys options))"
proof -
  let ?m = "getMissingOptions operations (Some (effective_options e options))"
  have 1: "(\<exists>err. execute e image_path operations options = Inl err) = (?m \<noteq> [])"
    by (simp add: execute_def Let_def)
  have 2: "\<forall>err. execute e image_path operations options = Inl err \<longrightarrow>
         err = Error (''Missing options: '' @ toSentence ?m)
         \<and> (\<forall>k \<in> set ?m. \<exists>msg. err = Error msg \<and> sublist k msg)"
  proof (intro allI impI)
    fix err
    assume "execute e image_path operations options = Inl err"
    then have "err = Error (''Missing options: '' @ toSentence ?m)"
      by (simp add: execute_def Let_def split: if_splits)
    then show "err = Error (''Missing options: '' @ toSentence ?m)
         \<and> (\<forall>k \<in> set ?m. \<exists>msg. err = Error msg \<and> sublist k msg)"
      using sublist_message [of _ ?m] by blast
  qed
  have 3: "?m = first_seen (filter (\<lambda>k. k \<notin> insert ''os'' (set (keys options))) (when_keys operations))"
    by (simp only: getMissingOptions_eq effective_options_keys)
  have 4: "distinct ?m" by (simp only: 3 distinct_first_seen)
  have 5: "set ?m = set (when_keys operations) - insert ''os'' (set (keys options))"
    by (simp only: 3 set_first_seen) auto
  from 1 2 3 4 5 show ?thesis by blast
qed

lemmas evaluation =
  execute_def pipeline_def effective_options_def getOperatingSystem_def getMissingOptions_def
  filterWhenMatches_def isObjectSubset_def isEmpty_def keys_def uniq_def difference_def
  run_def commands_def call_def copy_def replace_def run_script_def burn_def
  default_image_def bare_operation_def example_copy_def example_script_def
  example_env_simps Let_def

theorem execute_throws_iff_missing_witness:
  "execute example_env ''foo/bar.img''
     [bare_operation ''foo'' (Some [(''foo'', Num 1)]),
      bare_operation ''bar'' (Some [(''bar'', Num 2), (''foo'', Num 3)])]
     (Some [(''baz'', Num 0)])
   = Inl (Error ''Missing options: foo and bar'')"
proof -
  let ?ops = "[bare_operation ''foo'' (Some [(''foo'', Num 1)]),
      bare_operation ''bar'' (Some [(''bar'', Num 2), (''foo'', Num 3)])]"
  let ?opts = "Some [(''baz'', Num 0)]"
  note t = execute_throws_iff_missing [of example_env "''foo/bar.img''" ?ops ?opts]
  have m: "getMissingOptions ?ops (Some (effective_options example_env ?opts)) = [''foo'', ''bar'']"
    by (simp add: evaluation)
  from t [THEN conjunct1] m
  obtain err where e: "execute example_env ''foo/bar.img'' ?ops ?opts = Inl err" by auto
  from t [THEN conjunct2, THEN conjunct1, rule_format, OF e, THEN conjunct1] m
  have "err = Error ''Missing options: foo and bar''" by simp
  with e show ?thesis by simp
qed

section \<open>The run\<close>

lemma forward_not_lifecycle: "filter lifecycle_event (map Emit (forward signals)) = []"
  by (induction signals rule: forward.induct) simp_all

lemma calls_not_lifecycle: "filter lifecycle_event (map Call calls) = []"
  by (induction calls) simp_all

lemma zip_map_self: "zip (map f xs) xs = map (\<lambda>x. (f x, x)) xs"
  by (induction xs) simp_all

lemma all_complete_dispatch:
  "all_complete e image_path options index rest \<Longrightarrow>
     map_throwing (\<lambda>operation. run e image_path operation (Some options)) rest
       = Inr (map (\<lambda>operation. projr (run e image_path operation (Some options))) rest)"
  by (induction rest arbitrary: index) (auto simp: step_completes_def split: sum.splits)

lemma each_all_complete:
  "all_complete e image_path options index rest \<Longrightarrow>
     snd (each operations index
        (map (\<lambda>operation. (projr (run e image_path operation (Some options)), operation)) rest))
       = Resolved
     \<and> lifecycle (fst (each operations index
        (map (\<lambda>operation. (projr (run e image_path operation (Some options)), operation)) rest)))
       = expected operations index rest"
proof (induction rest arbitrary: index)
  case Nil
  then show ?case by (simp add: lifecycle_def)
next
  case (Cons operation rest)
  from Cons.prems have step: "step_completes e image_path options index operation"
    and rest: "all_complete e image_path options (Suc index) rest" by simp_all
  from step obtain promise where p: "run e image_path operation (Some options) = Inr promise"
    by (auto simp: step_completes_def split: sum.splits)
  obtain operation' calls result where r: "promise index = (operation', calls, result)"
    by (cases "promise index") auto
  from step p r obtain actionEvent where
    a: "result = Inr actionEvent" and w: "waitStreamToClose actionEvent = Resolved"
    by (auto simp: step_completes_def split: sum.splits)
  from Cons.IH [OF rest] p r a w show ?case
    by (auto simp: lifecycle_def forward_not_lifecycle calls_not_lifecycle split: prod.splits)
qed

lemma no_when_keys: "\<forall>operation \<in> set operations. when operation = None \<Longrightarrow> when_keys operations = []"
  by (induction operations) (simp_all add: when_keys_def keys_def)

lemma no_when_missing:
  "\<forall>operation \<in> set operations. when operation = None \<Longrightarrow>
     getMissingOptions operations (Some options) = []"
  by (simp add: getMissingOptions_eq no_when_keys)

lemma no_when_filter:
  "\<forall>operation \<in> set operations. when operation = None \<Longrightarrow>
     filterWhenMatches operations options = operations"
  by (simp add: filterWhenMatches_eq when_holds_def)

lemma pipeline_all_complete:
  assumes "filterWhenMatches operations (Some options) = kept"
    and "all_complete e image_path options 0 kept"
  shows "outcome (pipeline e image_path operations options) = Resolved
       \<and> lifecycle (trace (pipeline e image_path operations options))
           = expected kept 0 kept @ [Emit End]"
proof -
  let ?ps = "map (\<lambda>operation. (projr (run e image_path operation (Some options)), operation)) kept"
  obtain obs c where ea: "each kept 0 ?ps = (obs, c)" by (cases "each kept 0 ?ps") auto
  with each_all_complete [OF assms(2), of kept]
  have c: "c = Resolved" and l: "lifecycle obs = expected kept 0 kept" by simp_all
  have "pipeline e image_path operations options
      = \<lparr>trace = obs @ [Emit End], outcome = Resolved, on_patched = True, ended = True\<rparr>"
    using ea c
    by (simp add: pipeline_def assms(1) all_complete_dispatch [OF assms(2)] zip_map_self)
  with l show ?thesis by (simp add: lifecycle_def)
qed

lemma state_operations_lifecycle: "state_operations (lifecycle obs) = state_operations obs"
  unfolding lifecycle_def by (induction obs rule: state_operations.induct) simp_all

lemma state_operations_expected:
  "state_operations (expected operations index rest @ [Emit End]) = rest"
  by (induction rest arbitrary: index) simp_all

lemma failure_lifecycle: "Emit (Failure err) \<in> set obs \<Longrightarrow> Emit (Failure err) \<in> set (lifecycle obs)"
  by (simp add: lifecycle_def)

lemma expected_no_failure: "Emit (Failure err) \<notin> set (expected operations index rest)"
  by (induction rest arbitrary: index) simp_all

lemma expected_no_end: "Emit End \<notin> set (expected operations index rest)"
  by (induction rest arbitrary: index) simp_all

lemma expected_filter_end: "filter (\<lambda>ob. ob = Emit End) (expected operations index rest) = []"
  by (induction rest arbitrary: index) simp_all

lemma count_end_lifecycle:
  "length (filter (\<lambda>ob. ob = Emit End) (lifecycle obs)) = length (filter (\<lambda>ob. ob = Emit End) obs)"
  unfolding lifecycle_def by (induction obs) auto

lemma states_then_end:
  assumes "\<forall>operation \<in> set operations. when operation = None"
    and "all_complete e image_path (effective_options e options) 0 operations"
  shows "execute e image_path operations options
           = Inr (pipeline e image_path operations (effective_options e options))
       \<and> outcome (pipeline e image_path operations (effective_options e options)) = Resolved
       \<and> lifecycle (trace (pipeline e image_path operations (effective_options e options)))
           = expected operations 0 operations @ [Emit End]
       \<and> state_operations (trace (pipeline e image_path operations (effective_options e options)))
           = operations
       \<and> length (filter (\<lambda>ob. ob = Emit End)
            (trace (pipeline e image_path operations (effective_options e options)))) = 1
       \<and> (\<forall>err. Emit (Failure err)
            \<notin> set (trace (pipeline e image_path operations (effective_options e options))))"
proof -
  let ?opts = "effective_options e options"
  let ?ex = "pipeline e image_path operations ?opts"
  have 1: "execute e image_path operations options = Inr ?ex"
    using assms(1) by (simp add: execute_def Let_def no_when_missing)
  have f: "filterWhenMatches operations (Some ?opts) = operations"
    using assms(1) by (rule no_when_filter)
  from pipeline_all_complete [OF f assms(2)]
  have 2: "outcome ?ex = Resolved"
    and 3: "lifecycle (trace ?ex) = expected operations 0 operations @ [Emit End]"
    by simp_all
  have 4: "state_operations (trace ?ex) = operations"
    using state_operations_lifecycle [of "trace ?ex"] 3 by (simp add: state_operations_expected)
  have 5: "length (filter (\<lambda>ob. ob = Emit End) (trace ?ex)) = 1"
    using count_end_lifecycle [of "trace ?ex"] 3 by (simp add: expected_filter_end)
  have 6: "\<forall>err. Emit (Failure err) \<notin> set (trace ?ex)"
  proof (intro allI notI)
    fix err
    assume "Emit (Failure err) \<in> set (trace ?ex)"
    then have "Emit (Failure err) \<in> set (lifecycle (trace ?ex))" by (rule failure_lifecycle)
    with 3 expected_no_failure [of err operations 0 operations] show False by simp
  qed
  from 1 2 3 4 5 6 show ?thesis by blast
qed

text \<open>
  C1. When no operation has a \<open>when\<close> clause and every step completes, \<open>execute\<close> returns an
  emitter and the run ends resolved; its \<open>state\<close>, \<open>error\<close> and \<open>end\<close> events and its calls of
  the actions are, in order: for each operation of the list, in list order, the \<open>state\<close>
  event of the operation and then the call of its action; then one \<open>end\<close> event. So the
  \<open>state\<close> events are those of the operations, one each and in order, \<open>end\<close> is emitted
  once and \<open>error\<close> never. And when the options are not missing and no operation is kept by
  the filter, the run emits \<open>end\<close> and nothing else.
\<close>

theorem execute_states_then_end:
  "((\<forall>operation \<in> set operations. when operation = None)
      \<and> all_complete e image_path (effective_options e options) 0 operations \<longrightarrow>
      execute e image_path operations options
        = Inr (pipeline e image_path operations (effective_options e options))
      \<and> outcome (pipeline e image_path operations (effective_options e options)) = Resolved
      \<and> lifecycle (trace (pipeline e image_path operations (effective_options e options)))
          = expected operations 0 operations @ [Emit End]
      \<and> state_operations (trace (pipeline e image_path operations (effective_options e options)))
          = operations
      \<and> length (filter (\<lambda>ob. ob = Emit End)
           (trace (pipeline e image_path operations (effective_options e options)))) = 1
      \<and> (\<forall>err. Emit (Failure err)
           \<notin> set (trace (pipeline e image_path operations (effective_options e options)))))
   \<and> (getMissingOptions operations (Some (effective_options e options)) = []
      \<and> filterWhenMatches operations (Some (effective_options e options)) = [] \<longrightarrow>
      execute e image_path operations options
        = Inr \<lparr>trace = [Emit End], outcome = Resolved, on_patched = True, ended = True\<rparr>)"
proof -
  have "getMissingOptions operations (Some (effective_options e options)) = []
      \<and> filterWhenMatches operations (Some (effective_options e options)) = [] \<longrightarrow>
      execute e image_path operations options
        = Inr \<lparr>trace = [Emit End], outcome = Resolved, on_patched = True, ended = True\<rparr>"
    by (simp add: execute_def pipeline_def Let_def)
  with states_then_end [of operations e image_path options]
  show ?thesis by blast
qed

lemmas completion_evaluation = step_completes_def evaluation

theorem execute_states_then_end_witness:
  "lifecycle (trace (pipeline example_env ''foo/bar.img'' [example_copy, example_script]
       (effective_options example_env None)))
     = [Emit (State example_copy (getOperationProgress 0 [example_copy, example_script])),
        Invoke 0,
        Emit (State example_script (getOperationProgress 1 [example_copy, example_script])),
        Invoke 1,
        Emit End]
   \<and> execute example_env ''foo/bar.img'' [] None
     = Inr \<lparr>trace = [Emit End], outcome = Resolved, on_patched = True, ended = True\<rparr>"
proof -
  let ?ops = "[example_copy, example_script]"
  have a: "\<forall>operation \<in> set ?ops. when operation = None"
    by (simp add: example_copy_def example_script_def bare_operation_def)
  have b: "all_complete example_env ''foo/bar.img'' (effective_options example_env None) 0 ?ops"
    by (simp add: completion_evaluation)
  from execute_states_then_end [of ?ops example_env "''foo/bar.img''" None, THEN conjunct1] a b
  have 1: "lifecycle (trace (pipeline example_env ''foo/bar.img'' ?ops
       (effective_options example_env None))) = expected ?ops 0 ?ops @ [Emit End]"
    by blast
  have c: "getMissingOptions [] (Some (effective_options example_env None)) = []
      \<and> filterWhenMatches [] (Some (effective_options example_env None)) = []"
    by (simp add: evaluation)
  from execute_states_then_end [of "[]" example_env "''foo/bar.img''" None, THEN conjunct2] c
  have 2: "execute example_env ''foo/bar.img'' [] None
     = Inr \<lparr>trace = [Emit End], outcome = Resolved, on_patched = True, ended = True\<rparr>"
    by blast
  from 1 2 show ?thesis by simp
qed

lemma forward_no_end: "End \<notin> set (forward signals)"
  by (induction signals rule: forward.induct) simp_all

lemma each_no_end: "Emit End \<notin> set (fst (each operations index ps))"
proof (induction ps arbitrary: index)
  case Nil
  then show ?case by simp
next
  case (Cons p ps)
  obtain promise operation where p: "p = (promise, operation)" by (cases p) auto
  obtain operation' calls result where r: "promise index = (operation', calls, result)"
    by (cases "promise index") auto
  obtain obs c where ea: "each operations (Suc index) ps = (obs, c)"
    by (cases "each operations (Suc index) ps") auto
  with Cons.IH [of "Suc index"] have "Emit End \<notin> set obs" by simp
  with p r ea show ?case
    by (auto simp: Let_def forward_no_end image_iff split: sum.splits completion.splits)
qed

lemma pipeline_cases:
  "(outcome (pipeline e image_path operations options) = Resolved \<longrightarrow>
      on_patched (pipeline e image_path operations options)
      \<and> ended (pipeline e image_path operations options)
      \<and> last (trace (pipeline e image_path operations options)) = Emit End)
   \<and> (\<forall>err. outcome (pipeline e image_path operations options) = Rejected err \<longrightarrow>
        \<not> ended (pipeline e image_path operations options)
        \<and> Emit End \<notin> set (trace (pipeline e image_path operations options))
        \<and> last (trace (pipeline e image_path operations options)) = Emit (Failure err))"
proof -
  let ?kept = "filterWhenMatches operations (Some options)"
  show ?thesis
  proof (cases "map_throwing (\<lambda>operation. run e image_path operation (Some options)) ?kept")
    case (Inl err)
    then show ?thesis by (simp add: pipeline_def)
  next
    case (Inr promises)
    obtain obs c where ea: "each ?kept 0 (zip promises ?kept) = (obs, c)"
      by (cases "each ?kept 0 (zip promises ?kept)") auto
    with each_no_end [of ?kept 0 "zip promises ?kept"] have "Emit End \<notin> set obs" by simp
    with Inr ea show ?thesis by (cases c) (simp_all add: pipeline_def)
  qed
qed

text \<open>
  C5. On the emitter of a run that ended resolved, whose last event was \<open>end\<close>, subscribing
  to \<open>end\<close> calls the callback at once. On the emitter of a run that ended rejected, whose
  last event was the \<open>error\<close>, subscribing to \<open>end\<close> only adds the callback to the listeners,
  and no \<open>end\<close> event was or will be emitted to call it.
\<close>

theorem late_end_subscription:
  assumes "execute e image_path operations options = Inr ex"
  shows "(outcome ex = Resolved \<longrightarrow>
            emitter_on ex ''end'' = Called \<and> last (trace ex) = Emit End)
       \<and> (\<forall>err. outcome ex = Rejected err \<longrightarrow>
            emitter_on ex ''end'' = Listening \<and> Emit End \<notin> set (trace ex)
            \<and> last (trace ex) = Emit (Failure err))"
proof -
  from assms have "ex = pipeline e image_path operations (effective_options e options)"
    by (simp add: execute_def Let_def split: if_splits)
  with pipeline_cases [of e image_path operations "effective_options e options"]
  show ?thesis by (simp add: emitter_on_def)
qed

theorem late_end_subscription_witness:
  "emitter_on (pipeline example_env ''foo/bar.img'' [example_copy]
       (effective_options example_env None)) ''end'' = Called
   \<and> emitter_on (pipeline example_env ''foo/bar.img'' [bare_operation ''burn'' None]
       (effective_options example_env None)) ''end'' = Listening
   \<and> Emit End \<notin> set (trace (pipeline example_env ''foo/bar.img'' [bare_operation ''burn'' None]
       (effective_options example_env None)))"
proof -
  let ?opts = "effective_options example_env None"
  let ?good = "pipeline example_env ''foo/bar.img'' [example_copy] ?opts"
  let ?bad = "pipeline example_env ''foo/bar.img'' [bare_operation ''burn'' None] ?opts"
  have g: "execute example_env ''foo/bar.img'' [example_copy] None = Inr ?good"
    by (simp add: evaluation)
  have go: "outcome ?good = Resolved" by (simp add: evaluation)
  have b: "execute example_env ''foo/bar.img'' [bare_operation ''burn'' None] None = Inr ?bad"
    by (simp add: evaluation)
  have bo: "outcome ?bad = Rejected (Error ''Missing drive option'')" by (simp add: evaluation)
  from late_end_subscription [OF g, THEN conjunct1] go
  have 1: "emitter_on ?good ''end'' = Called" by blast
  from late_end_subscription [OF b, THEN conjunct2] bo
  have 2: "emitter_on ?bad ''end'' = Listening \<and> Emit End \<notin> set (trace ?bad)" by blast
  from 1 2 show ?thesis by blast
qed

lemma map_throwing_first_failure:
  assumes "\<forall>x \<in> set before. \<exists>y. f x = Inr y" and "f x = Inl err"
  shows "map_throwing f (before @ x # later) = Inl err"
  using assms by (induction before) (auto split: sum.splits)

lemma run_unknown:
  "commands (command operation) = None \<Longrightarrow>
     run e image_path operation options = Inl (Error (''Unknown command: '' @ command operation))"
  by (simp add: run_def)

lemma run_bound:
  "commands (command operation) \<noteq> None \<Longrightarrow> commands (command operation) \<noteq> Some Inherited_object
     \<Longrightarrow> \<exists>promise. run e image_path operation options = Inr promise"
  by (auto simp: run_def split: option.splits)

text \<open>
  C6, as the code has it. The operations kept by the filter are all bound to their actions
  before the first step. When the first of them that cannot be bound has a command for
  which \<open>commands\<close> has no property, neither one of the four commands nor a name inherited
  from \<open>Object.prototype\<close>, the run emits one \<open>error\<close> event with the error
  \<open>Unknown command\<close> of that operation and nothing else: no \<open>state\<close> event, no call of an
  action, no \<open>end\<close>, also for the operations before it.
\<close>

theorem unknown_command_fails_before_any_step:
  assumes "getMissingOptions operations (Some (effective_options e options)) = []"
    and "filterWhenMatches operations (Some (effective_options e options))
           = before @ operation # later"
    and "\<forall>earlier \<in> set before. commands (command earlier) \<noteq> None
           \<and> commands (command earlier) \<noteq> Some Inherited_object"
    and "commands (command operation) = None"
  shows "execute e image_path operations options
           = Inr \<lparr>trace = [Emit (Failure (Error (''Unknown command: '' @ command operation)))],
                  outcome = Rejected (Error (''Unknown command: '' @ command operation)),
                  on_patched = False, ended = False\<rparr>"
proof -
  let ?opts = "effective_options e options"
  let ?f = "\<lambda>operation. run e image_path operation (Some ?opts)"
  from assms(3) have "\<forall>earlier \<in> set before. \<exists>promise. ?f earlier = Inr promise"
    using run_bound by blast
  then have "map_throwing ?f (before @ operation # later)
      = Inl (Error (''Unknown command: '' @ command operation))"
    using run_unknown [OF assms(4)] by (rule map_throwing_first_failure)
  with assms(1,2) show ?thesis by (simp add: execute_def pipeline_def Let_def)
qed

theorem unknown_command_fails_before_any_step_witness:
  "execute example_env ''foo/bar.img''
     [example_script, bare_operation ''format'' None, example_copy] None
     = Inr \<lparr>trace = [Emit (Failure (Error ''Unknown command: format''))],
            outcome = Rejected (Error ''Unknown command: format''),
            on_patched = False, ended = False\<rparr>"
proof -
  let ?ops = "[example_script, bare_operation ''format'' None, example_copy]"
  have 1: "getMissingOptions ?ops (Some (effective_options example_env None)) = []"
    by (simp add: evaluation)
  have 2: "filterWhenMatches ?ops (Some (effective_options example_env None))
      = [example_script] @ bare_operation ''format'' None # [example_copy]"
    by (simp add: evaluation)
  have 3: "\<forall>earlier \<in> set [example_script]. commands (command earlier) \<noteq> None
           \<and> commands (command earlier) \<noteq> Some Inherited_object"
    by (simp add: evaluation)
  have 4: "commands (command (bare_operation ''format'' None)) = None"
    by (simp add: evaluation)
  from unknown_command_fails_before_any_step [OF 1 2 3 4, of "''foo/bar.img''"]
  show ?thesis by (simp add: bare_operation_def)
qed

text \<open>
  C6 as stated fails: a \<open>copy\<close> that would succeed, followed by an operation with the unknown
  command \<open>foo\<close>, is not run and has no \<open>state\<close> event; the run emits the \<open>error\<close> only.
\<close>

theorem unknown_command_skips_earlier_steps:
  "execute example_env ''foo/bar.img'' [example_copy, bare_operation ''foo'' None] None
     = Inr \<lparr>trace = [Emit (Failure (Error ''Unknown command: foo''))],
            outcome = Rejected (Error ''Unknown command: foo''),
            on_patched = False, ended = False\<rparr>"
  by (simp add: evaluation)

text \<open>
  A command that names an inherited function, such as \<open>toString\<close>, is not an unknown
  command: it is bound, the steps before it run, and its own step fails with a
  \<open>TypeError\<close>.
\<close>

lemma inherited_command_runs_earlier_steps:
  "execute example_env ''foo/bar.img'' [example_copy, bare_operation ''toString'' None] None
     = Inr \<lparr>trace =
              [Emit (State example_copy
                 (getOperationProgress 0 [example_copy, bare_operation ''toString'' None])),
               Invoke 0,
               Call (Imagefs_copy
                 \<lparr>image_d = Some ''foo/bar.img'', partition = Some [(''primary'', Num 1)],
                  path = Some ''/foo''\<rparr>
                 \<lparr>image_d = Some ''foo/bar.img'', partition = Some [(''primary'', Num 4)],
                  path = Some ''/bar''\<rparr>),
               Emit (State (bare_operation ''toString'' None)
                 (getOperationProgress 1 [example_copy, bare_operation ''toString'' None])),
               Invoke 1,
               Emit (Failure TypeError)],
            outcome = Rejected TypeError, on_patched = True, ended = False\<rparr>"
  by (simp add: evaluation)

section \<open>Progress of the steps\<close>

subsection \<open>Rounding to binary64\<close>

lemma quotient_of_pos:
  assumes "0 < x" and "quotient_of x = (p, q)"
  shows "0 < p" "0 < q" "x = of_int p / of_int q"
  using assms quotient_of_denom_pos [of x p q] quotient_of_div [of x p q]
  by (auto simp: zero_less_divide_iff)

lemma bitlen_bounds_rat:
  assumes "0 < (p::int)"
  shows "2 powi (bitlen p - 1) \<le> (of_int p :: rat)" "(of_int p :: rat) < 2 powi (bitlen p)"
proof -
  from assms have b: "1 \<le> bitlen p" by (simp add: bitlen_alt_def)
  from bitlen_bounds [OF assms] have l: "2 ^ nat (bitlen p - 1) \<le> p" and u: "p < 2 ^ nat (bitlen p)"
    by simp_all
  from l have "(of_int (2 ^ nat (bitlen p - 1)) :: rat) \<le> of_int p" by (simp only: of_int_le_iff)
  then show "2 powi (bitlen p - 1) \<le> (of_int p :: rat)" using b by (simp add: power_int_def)
  from u have "(of_int p :: rat) < of_int (2 ^ nat (bitlen p))" by (simp only: of_int_less_iff)
  then show "(of_int p :: rat) < 2 powi (bitlen p)" using b by (simp add: power_int_def)
qed


lemma exponent_bounds:
  assumes "0 < x"
  shows "2 powi (exponent x) \<le> x" "x < 2 powi (exponent x + 1)"
proof -
  obtain p q where pq: "quotient_of x = (p, q)" by (cases "quotient_of x") auto
  from quotient_of_pos [OF assms pq] have p: "0 < p" and q: "0 < q"
    and x: "x = of_int p / of_int q" by simp_all
  let ?d = "bitlen p - bitlen q"
  have q0: "(0::rat) < of_int q" using q by simp
  have "x * of_int q < 2 powi (bitlen p)" using bitlen_bounds_rat(2) [OF p] x q0 by simp
  also have "\<dots> = 2 powi (?d + 1) * 2 powi (bitlen q - 1)"
    by (simp add: power_int_add [symmetric])
  also have "\<dots> \<le> 2 powi (?d + 1) * of_int q"
    using bitlen_bounds_rat(1) [OF q] by (simp add: mult_left_mono)
  finally have up: "x < 2 powi (?d + 1)" using q0 by simp
  have "2 powi (?d - 1) * (of_int q :: rat) \<le> 2 powi (?d - 1) * 2 powi (bitlen q)"
    using bitlen_bounds_rat(2) [OF q] by (simp add: mult_left_mono)
  also have "\<dots> = 2 powi (bitlen p - 1)" by (simp add: power_int_add [symmetric])
  also have "\<dots> \<le> of_int p" using bitlen_bounds_rat(1) [OF p] .
  also have "\<dots> = x * of_int q" using x q0 by simp
  finally have low: "2 powi (?d - 1) \<le> x" using q0 by simp
  have e: "exponent x = (if 2 powi ?d \<le> x then ?d else ?d - 1)"
    by (simp add: exponent_def pq)
  show "2 powi (exponent x) \<le> x" using e low by (simp split: if_splits)
  show "x < 2 powi (exponent x + 1)" using e up by (simp split: if_splits)
qed

lemma roundEven_of_int: "roundEven (of_int k) = k"
  by (simp add: roundEven_def)

lemma roundEven_near: "\<bar>of_int (roundEven y) - y\<bar> \<le> 1 / 2"
proof -
  have "of_int \<lfloor>y\<rfloor> \<le> y" "y < of_int \<lfloor>y\<rfloor> + 1" by linarith+
  then show ?thesis by (auto simp: roundEven_def Let_def)
qed

lemma roundEven_floor: "\<lfloor>y\<rfloor> \<le> roundEven y" "roundEven y \<le> \<lfloor>y\<rfloor> + 1"
  by (auto simp: roundEven_def Let_def)

lemma roundEven_mono:
  assumes "y \<le> z"
  shows "roundEven y \<le> roundEven z"
proof (cases "\<lfloor>y\<rfloor> = \<lfloor>z\<rfloor>")
  case True
  with assms show ?thesis by (auto simp: roundEven_def Let_def)
next
  case False
  with assms have "\<lfloor>y\<rfloor> < \<lfloor>z\<rfloor>" using floor_mono [OF assms] by linarith
  with roundEven_floor(2) [of y] roundEven_floor(1) [of z] show ?thesis by linarith
qed

lemma unit_pos: "(0::rat) < 2 powi k"
  by simp

lemma fl_pos_eq:
  "x \<noteq> 0 \<Longrightarrow>
     fl x = of_int (roundEven (x / 2 powi (exponent \<bar>x\<bar> - 52))) * 2 powi (exponent \<bar>x\<bar> - 52)"
  by (simp add: fl_def Let_def)

lemma abs_scale:
  assumes "0 < (u::rat)"
  shows "\<bar>r * u - x\<bar> = \<bar>r - x / u\<bar> * u"
proof -
  have "r * u - x = (r - x / u) * u" using assms by (simp add: field_simps)
  then have "\<bar>r * u - x\<bar> = \<bar>r - x / u\<bar> * \<bar>u\<bar>" by (simp only: abs_mult)
  with assms show ?thesis by simp
qed

lemma fl_error:
  assumes "0 < x"
  shows "\<bar>fl x - x\<bar> \<le> x / 2 ^ 53"
proof -
  let ?u = "(2::rat) powi (exponent x - 52)"
  have u: "0 < ?u" by simp
  have f: "fl x = of_int (roundEven (x / ?u)) * ?u" using assms by (simp add: fl_pos_eq)
  have "\<bar>fl x - x\<bar> = \<bar>of_int (roundEven (x / ?u)) - x / ?u\<bar> * ?u"
    unfolding f using u by (rule abs_scale)
  also have "\<dots> \<le> (1 / 2) * ?u" using roundEven_near [of "x / ?u"] u
    by (simp add: mult_right_mono)
  also have "\<dots> = 2 powi (exponent x) / 2 ^ 53"
    by (simp add: power_int_diff)
  also have "\<dots> \<le> x / 2 ^ 53" using exponent_bounds(1) [OF assms] by (simp add: divide_right_mono)
  finally show ?thesis .
qed

lemma scaled_range:
  assumes "0 < x"
  shows "2 ^ 52 \<le> x / 2 powi (exponent x - 52)" "x / 2 powi (exponent x - 52) < 2 ^ 53"
proof -
  let ?u = "(2::rat) powi (exponent x - 52)"
  have u: "0 < ?u" by simp
  have "2 ^ 52 * ?u = 2 powi (exponent x)" by (simp add: power_int_diff)
  with exponent_bounds(1) [OF assms] have "2 ^ 52 * ?u \<le> x" by simp
  with u show "2 ^ 52 \<le> x / ?u" by (simp add: pos_le_divide_eq)
  have "2 ^ 53 * ?u = 2 powi (exponent x + 1)" by (simp add: power_int_diff power_int_add)
  with exponent_bounds(2) [OF assms] have "x < 2 ^ 53 * ?u" by simp
  with u show "x / ?u < 2 ^ 53" by (simp add: pos_divide_less_eq)
qed

lemma fl_in_binade:
  assumes "0 < x"
  shows "2 powi (exponent x) \<le> fl x" "fl x \<le> 2 powi (exponent x + 1)"
proof -
  let ?u = "(2::rat) powi (exponent x - 52)"
  let ?m = "roundEven (x / ?u)"
  have u: "0 < ?u" by simp
  have f: "fl x = of_int ?m * ?u" using assms by (simp add: fl_pos_eq)
  have "roundEven (of_int (2 ^ 52)) \<le> ?m"
    using scaled_range(1) [OF assms] by (intro roundEven_mono) simp
  then have "2 ^ 52 \<le> ?m" by (simp only: roundEven_of_int)
  then have "(of_int (2 ^ 52) :: rat) \<le> of_int ?m" by (simp only: of_int_le_iff)
  then have a: "2 ^ 52 * ?u \<le> of_int ?m * ?u" using u by (simp add: mult_right_mono)
  have b: "2 ^ 52 * ?u = 2 powi (exponent x)" by (simp add: power_int_diff)
  show "2 powi (exponent x) \<le> fl x" unfolding f using a b by linarith
  have "?m \<le> roundEven (of_int (2 ^ 53))"
    using scaled_range(2) [OF assms] by (intro roundEven_mono) simp
  then have "?m \<le> 2 ^ 53" by (simp only: roundEven_of_int)
  then have "(of_int ?m :: rat) \<le> of_int (2 ^ 53)" by (simp only: of_int_le_iff)
  then have c: "of_int ?m * ?u \<le> 2 ^ 53 * ?u" using u by (simp add: mult_right_mono)
  have d: "2 ^ 53 * ?u = 2 powi (exponent x + 1)" by (simp add: power_int_diff power_int_add)
  show "fl x \<le> 2 powi (exponent x + 1)" unfolding f using c d by linarith
qed

lemma fl_positive: "0 < x \<Longrightarrow> 0 < fl x"
  using fl_in_binade(1) [of x] unit_pos [of "exponent x"] by linarith

lemma exponent_mono:
  assumes "0 < x" and "x \<le> y"
  shows "exponent x \<le> exponent y"
proof (rule ccontr)
  assume "\<not> exponent x \<le> exponent y"
  then have "exponent y + 1 \<le> exponent x" by simp
  then have "(2::rat) powi (exponent y + 1) \<le> 2 powi (exponent x)"
    by (intro power_int_increasing) simp_all
  also have "\<dots> \<le> x" using exponent_bounds(1) [OF assms(1)] .
  also have "\<dots> \<le> y" by fact
  also have "\<dots> < 2 powi (exponent y + 1)" using exponent_bounds(2) [of y] assms by simp
  finally show False by simp
qed

lemma fl_mono_pos:
  assumes "0 < x" and "x \<le> y"
  shows "fl x \<le> fl y"
proof (cases "exponent x = exponent y")
  case True
  let ?u = "(2::rat) powi (exponent y - 52)"
  have u: "0 < ?u" by simp
  from assms have y: "0 < y" by simp
  have "x / ?u \<le> y / ?u" using assms(2) u by (simp add: divide_right_mono)
  then have "roundEven (x / ?u) \<le> roundEven (y / ?u)" by (rule roundEven_mono)
  then have "(of_int (roundEven (x / ?u)) :: rat) \<le> of_int (roundEven (y / ?u))"
    by (simp only: of_int_le_iff)
  then have "of_int (roundEven (x / ?u)) * ?u \<le> of_int (roundEven (y / ?u)) * ?u"
    using u by (simp add: mult_right_mono)
  then show ?thesis using assms(1) y True by (simp add: fl_pos_eq)
next
  case False
  from assms have y: "0 < y" by simp
  from False exponent_mono [OF assms] have "exponent x + 1 \<le> exponent y" by simp
  then have "(2::rat) powi (exponent x + 1) \<le> 2 powi (exponent y)"
    by (intro power_int_increasing) simp_all
  with fl_in_binade(2) [OF assms(1)] fl_in_binade(1) [OF y] show ?thesis by linarith
qed

lemma fl_mono:
  assumes "0 \<le> x" and "x \<le> y"
  shows "fl x \<le> fl y"
proof (cases "x = 0")
  case True
  show ?thesis
  proof (cases "y = 0")
    case True
    with \<open>x = 0\<close> show ?thesis by simp
  next
    case False
    with assms True have "0 < y" by simp
    from fl_positive [OF this] True show ?thesis by (simp add: fl_def)
  qed
next
  case False
  with assms have "0 < x" by simp
  then show ?thesis using assms(2) by (rule fl_mono_pos)
qed

subsection \<open>The progress of a step\<close>

lemma getOperationProgress_tenths:
  "operations \<noteq> [] \<Longrightarrow>
     getOperationProgress index operations
       = Finite (fl (of_int (tenths index (length operations)) / 10))"
  by (simp add: getOperationProgress_def tenths_def Let_def)

lemma fl_1: "fl 1 = 1" by code_simp
lemma fl_100: "fl 100 = 100" by code_simp

lemma toFixed1_100: "toFixed1 100 = 1000" by code_simp

lemma tenths_last: "0 < n \<Longrightarrow> tenths (n - 1) n = 1000"
  by (simp add: tenths_def fl_1 fl_100 toFixed1_100)

lemma progress_pos:
  assumes "0 < n"
  shows "0 < fl (fl (of_nat (index + 1) / of_nat n) * 100)"
proof -
  have "(0::rat) < of_nat (index + 1) / of_nat n" using assms by simp
  then have "0 < fl (of_nat (index + 1) / of_nat n)" by (rule fl_positive)
  then have "0 < fl (of_nat (index + 1) / of_nat n) * 100" by simp
  then show ?thesis by (rule fl_positive)
qed

lemma tenths_nonneg: "0 < n \<Longrightarrow> 0 \<le> tenths index n"
  using progress_pos [of n index] by (simp add: tenths_def toFixed1_def)

lemma progress_mono:
  assumes "0 < n" and "i \<le> j"
  shows "fl (fl (of_nat (i + 1) / of_nat n) * 100) \<le> fl (fl (of_nat (j + 1) / of_nat n) * 100)"
proof -
  have p: "(0::rat) < of_nat (i + 1) / of_nat n" using assms by simp
  have "(of_nat (i + 1) :: rat) / of_nat n \<le> of_nat (j + 1) / of_nat n"
    using assms by (simp add: divide_right_mono)
  with p have "fl (of_nat (i + 1) / of_nat n) \<le> fl (of_nat (j + 1) / of_nat n)"
    by (rule fl_mono_pos)
  then have "fl (of_nat (i + 1) / of_nat n) * 100 \<le> fl (of_nat (j + 1) / of_nat n) * 100"
    by simp
  moreover have "0 < fl (of_nat (i + 1) / of_nat n) * 100" using fl_positive [OF p] by simp
  ultimately show ?thesis by (rule fl_mono_pos [rotated])
qed

lemma tenths_mono: "0 < n \<Longrightarrow> i \<le> j \<Longrightarrow> tenths i n \<le> tenths j n"
  unfolding tenths_def toFixed1_def using progress_mono [of n i j]
  by (intro floor_mono) simp

lemma percentage_mono:
  assumes "0 < n" and "i \<le> j"
  shows "fl (of_int (tenths i n) / 10) \<le> fl (of_int (tenths j n) / 10)"
proof (rule fl_mono)
  show "(0::rat) \<le> of_int (tenths i n) / 10" using tenths_nonneg [OF assms(1), of i] by simp
  show "(of_int (tenths i n) :: rat) / 10 \<le> of_int (tenths j n) / 10"
    using tenths_mono [OF assms] by simp
qed

lemma progress_error:
  assumes "0 < q" and "q \<le> 1"
  shows "\<bar>fl (fl q * 100) - 100 * q\<bar> \<le> 300 / 2 ^ 53"
proof -
  let ?a = "fl q"
  let ?b = "fl (?a * 100)"
  have a0: "0 < ?a" using assms(1) by (rule fl_positive)
  have ea: "\<bar>?a - q\<bar> \<le> q / 2 ^ 53" using assms(1) by (rule fl_error)
  also have "\<dots> \<le> 1 / 2 ^ 53" using assms(2) by (simp add: divide_right_mono)
  finally have ea': "\<bar>?a - q\<bar> \<le> 1 / 2 ^ 53" .
  have small: "(1::rat) / 2 ^ 53 \<le> 1" by simp
  from ea' have "?a - q \<le> 1 / 2 ^ 53" by (simp only: abs_le_iff)
  with small assms(2) have a2: "?a \<le> 2" by linarith
  have "0 < ?a * 100" using a0 by simp
  then have "\<bar>?b - ?a * 100\<bar> \<le> ?a * 100 / 2 ^ 53" by (rule fl_error)
  also have "\<dots> \<le> 200 / 2 ^ 53" using a2 by (simp add: divide_right_mono)
  finally have eb: "\<bar>?b - ?a * 100\<bar> \<le> 200 / 2 ^ 53" .
  from ea' have 1: "?a - q \<le> 1 / 2 ^ 53" "q - ?a \<le> 1 / 2 ^ 53"
    by (simp_all only: abs_le_iff minus_diff_eq)
  from eb have 2: "?b - ?a * 100 \<le> 200 / 2 ^ 53" "?a * 100 - ?b \<le> 200 / 2 ^ 53"
    by (simp_all only: abs_le_iff minus_diff_eq)
  have "?b - 100 * q \<le> 300 / 2 ^ 53" "100 * q - ?b \<le> 300 / 2 ^ 53"
    using 1 2 by linarith+
  then show ?thesis by (simp only: abs_le_iff minus_diff_eq)
qed

lemma int_gap_up:
  fixes t K M :: int
  assumes "0 < M" and "(of_int t + 1 / 2 :: rat) < of_int K / (2 * of_int M)"
  shows "(of_int t + 1 / 2 :: rat) + 1 / (2 * of_int M) \<le> of_int K / (2 * of_int M)"
proof -
  have c: "(0::rat) < 2 * of_int M" using assms(1) by simp
  from assms(2) c have "(of_int t + 1 / 2) * (2 * of_int M) < (of_int K :: rat)"
    by (simp only: pos_less_divide_eq)
  moreover have "(of_int t + 1 / 2 :: rat) * (2 * of_int M) = of_int ((2 * t + 1) * M)"
    by (simp add: algebra_simps)
  ultimately have "(of_int ((2 * t + 1) * M) :: rat) < of_int K" by (simp only:)
  then have "(2 * t + 1) * M < K" by (simp only: of_int_less_iff)
  then have "(2 * t + 1) * M + 1 \<le> K" by simp
  then have "(of_int ((2 * t + 1) * M + 1) :: rat) \<le> of_int K" by (simp only: of_int_le_iff)
  moreover have "(of_int ((2 * t + 1) * M + 1) :: rat)
      = (of_int t + 1 / 2 + 1 / (2 * of_int M)) * (2 * of_int M)"
    using assms(1) by (simp add: field_simps)
  ultimately have "(of_int t + 1 / 2 + 1 / (2 * of_int M)) * (2 * of_int M) \<le> (of_int K :: rat)"
    by (simp only:)
  with c show ?thesis by (simp only: pos_le_divide_eq)
qed

lemma int_gap_down:
  fixes t K M :: int
  assumes "0 < M" and "(of_int K :: rat) / (2 * of_int M) < of_int t - 1 / 2"
  shows "(of_int K :: rat) / (2 * of_int M) \<le> of_int t - 1 / 2 - 1 / (2 * of_int M)"
proof -
  have c: "(0::rat) < 2 * of_int M" using assms(1) by simp
  from assms(2) c have "(of_int K :: rat) < (of_int t - 1 / 2) * (2 * of_int M)"
    by (simp only: pos_divide_less_eq)
  moreover have "(of_int t - 1 / 2 :: rat) * (2 * of_int M) = of_int ((2 * t - 1) * M)"
    by (simp add: algebra_simps)
  ultimately have "(of_int K :: rat) < of_int ((2 * t - 1) * M)" by (simp only:)
  then have "K < (2 * t - 1) * M" by (simp only: of_int_less_iff)
  then have "K \<le> (2 * t - 1) * M - 1" by simp
  then have "(of_int K :: rat) \<le> of_int ((2 * t - 1) * M - 1)" by (simp only: of_int_le_iff)
  moreover have "(of_int ((2 * t - 1) * M - 1) :: rat)
      = (of_int t - 1 / 2 - 1 / (2 * of_int M)) * (2 * of_int M)"
    using assms(1) by (simp add: field_simps)
  ultimately have "(of_int K :: rat) \<le> (of_int t - 1 / 2 - 1 / (2 * of_int M)) * (2 * of_int M)"
    by (simp only:)
  with c show ?thesis by (simp only: pos_divide_le_eq)
qed

lemma gap_too_small:
  fixes M :: int
  assumes "0 < M" and "6000 * M < 2 ^ 53"
  shows "(3000 :: rat) / 2 ^ 53 < 1 / (2 * of_int M)"
proof -
  from assms(2) have "(of_int (6000 * M) :: rat) < of_int (2 ^ 53)" by (simp only: of_int_less_iff)
  then have "6000 * (of_int M :: rat) < 2 ^ 53" by simp
  with assms(1) show ?thesis by (simp add: field_simps)
qed

lemma nearest_by_gap:
  fixes t K M :: int and z :: rat
  assumes "0 < M" and "6000 * M < 2 ^ 53"
    and "of_int t \<le> z + 1 / 2" and "z + 1 / 2 < of_int t + 1"
    and "\<bar>z - of_int K / (2 * of_int M)\<bar> \<le> 3000 / 2 ^ 53"
  shows "\<bar>of_int t - of_int K / (2 * of_int M)\<bar> \<le> (1::rat) / 2"
proof -
  let ?y = "(of_int K :: rat) / (2 * of_int M)"
  note g = gap_too_small [OF assms(1,2)]
  from assms(5) have e: "z - ?y \<le> 3000 / 2 ^ 53" "?y - z \<le> 3000 / 2 ^ 53"
    by (simp_all only: abs_le_iff minus_diff_eq)
  have up: "?y \<le> of_int t + 1 / 2"
  proof (rule ccontr)
    assume "\<not> ?y \<le> of_int t + 1 / 2"
    then have "of_int t + 1 / 2 < ?y" by (simp only: not_le)
    from int_gap_up [OF assms(1) this] e(2) assms(4) g show False by linarith
  qed
  have down: "of_int t - 1 / 2 \<le> ?y"
  proof (rule ccontr)
    assume "\<not> of_int t - 1 / 2 \<le> ?y"
    then have "?y < of_int t - 1 / 2" by (simp only: not_le)
    from int_gap_down [OF assms(1) this] e(1) assms(3) g show False by linarith
  qed
  from up down have "of_int t - ?y \<le> 1 / 2" "?y - of_int t \<le> 1 / 2" by linarith+
  then show ?thesis by (simp only: abs_le_iff minus_diff_eq)
qed

lemma abs_scale10:
  fixes b y d :: rat
  assumes "\<bar>b - y / 10\<bar> \<le> d"
  shows "\<bar>b * 10 - y\<bar> \<le> 10 * d"
proof -
  from assms have "b - y / 10 \<le> d" "y / 10 - b \<le> d"
    by (simp_all only: abs_le_iff minus_diff_eq)
  then have "b * 10 - y \<le> 10 * d" "y - b * 10 \<le> 10 * d" by linarith+
  then show ?thesis by (simp only: abs_le_iff minus_diff_eq)
qed

lemma nearest_tenth:
  assumes "i < n" and "n < 2 ^ 32"
  shows "\<bar>of_int (tenths i n) - 1000 * of_nat (i + 1) / of_nat n\<bar> \<le> (1::rat) / 2"
proof -
  let ?q = "(of_nat (i + 1) :: rat) / of_nat n"
  let ?b = "fl (fl ?q * 100)"
  let ?t = "tenths i n"
  let ?K = "2000 * int (i + 1)"
  let ?M = "int n"
  have n0: "0 < n" using assms(1) by simp
  then have M0: "0 < ?M" by simp
  have q0: "0 < ?q" using n0 by simp
  have q1: "?q \<le> 1" using assms(1) by simp
  have err: "\<bar>?b - 100 * ?q\<bar> \<le> 300 / 2 ^ 53" using q0 q1 by (rule progress_error)
  have t: "?t = \<lfloor>?b * 10 + 1 / 2\<rfloor>" by (simp add: tenths_def toFixed1_def)
  have lo: "of_int ?t \<le> ?b * 10 + 1 / 2" unfolding t by (rule of_int_floor_le)
  have hi: "?b * 10 + 1 / 2 < of_int ?t + 1" unfolding t by linarith
  have y: "1000 * of_nat (i + 1) / of_nat n = (of_int ?K :: rat) / (2 * of_int ?M)"
    using n0 by (simp add: field_simps)
  have y': "100 * ?q = ((of_int ?K :: rat) / (2 * of_int ?M)) / 10"
    using n0 by (simp add: field_simps)
  have big: "6000 * ?M < 2 ^ 53"
  proof -
    have "?M < 2 ^ 32" using assms(2) by (simp add: of_nat_less_numeral_power_cancel_iff)
    then show ?thesis by simp
  qed
  from err have "\<bar>?b - ((of_int ?K :: rat) / (2 * of_int ?M)) / 10\<bar> \<le> 300 / 2 ^ 53"
    by (simp only: y')
  then have "\<bar>?b * 10 - (of_int ?K :: rat) / (2 * of_int ?M)\<bar> \<le> 10 * (300 / 2 ^ 53)"
    by (rule abs_scale10)
  moreover have "(10::rat) * (300 / 2 ^ 53) = 3000 / 2 ^ 53" by simp
  ultimately have e: "\<bar>?b * 10 - (of_int ?K :: rat) / (2 * of_int ?M)\<bar> \<le> 3000 / 2 ^ 53"
    by (simp only:)
  from nearest_by_gap [OF M0 big lo hi e] show ?thesis unfolding y .
qed

lemma percentages_append: "percentages (xs @ ys) = percentages xs @ percentages ys"
  by (induction xs rule: percentages.induct) simp_all

lemma percentages_calls: "percentages (map Call calls) = []"
  by (induction calls) simp_all

lemma percentages_forward: "percentages (map Emit (forward signals)) = []"
  by (induction signals rule: forward.induct) simp_all

lemma each_percentages:
  "prefix (percentages (fst (each operations index ps)))
     (map (\<lambda>i. getOperationProgress i operations) [index..<index + length ps])"
proof (induction ps arbitrary: index)
  case Nil
  then show ?case by simp
next
  case (Cons p ps)
  obtain promise operation where p: "p = (promise, operation)" by (cases p) auto
  obtain operation' calls result where r: "promise index = (operation', calls, result)"
    by (cases "promise index") auto
  obtain obs c where ea: "each operations (Suc index) ps = (obs, c)"
    by (cases "each operations (Suc index) ps") auto
  have "[index..<index + length (p # ps)] = index # [Suc index..<index + length (p # ps)]"
    by (rule upt_conv_Cons) simp
  moreover have "index + length (p # ps) = Suc index + length ps" by simp
  ultimately
  have u: "[index..<index + length (p # ps)] = index # [Suc index..<Suc index + length ps]"
    by (simp only:)
  from Cons.IH [of "Suc index"] ea
  have ih: "prefix (percentages obs)
      (map (\<lambda>i. getOperationProgress i operations) [Suc index..<Suc index + length ps])"
    by simp
  show ?case unfolding u using p r ea ih
    by (auto simp: Let_def percentages_append percentages_calls percentages_forward
        split: sum.splits completion.splits)
qed

lemma tenth_scale:
  fixes t y :: rat
  assumes "\<bar>t - 1000 * y\<bar> \<le> 1 / 2"
  shows "\<bar>t / 10 - y * 100\<bar> \<le> 1 / 20"
proof -
  from assms have "t - 1000 * y \<le> 1 / 2" "1000 * y - t \<le> 1 / 2"
    by (simp_all only: abs_le_iff minus_diff_eq)
  then have "t / 10 - y * 100 \<le> 1 / 20" "y * 100 - t / 10 \<le> 1 / 20" by linarith+
  then show ?thesis by (simp only: abs_le_iff minus_diff_eq)
qed

lemma prefix_upto: "m \<le> n \<Longrightarrow> prefix (map f [0..<m]) (map f [0..<n])"
proof -
  assume "m \<le> n"
  then have "[0..<n] = [0..<m] @ [m..<n]" by (metis le_add_diff_inverse upt_add_eq_append zero_le)
  then show ?thesis by (simp add: prefix_def)
qed

lemma pipeline_percentages:
  "prefix (percentages (trace (pipeline e image_path operations options)))
     (map (\<lambda>i. getOperationProgress i (filterWhenMatches operations (Some options)))
        [0..<length (filterWhenMatches operations (Some options))])"
proof -
  let ?kept = "filterWhenMatches operations (Some options)"
  let ?all = "\<lambda>n. map (\<lambda>i. getOperationProgress i ?kept) [0..<n]"
  show ?thesis
  proof (cases "map_throwing (\<lambda>operation. run e image_path operation (Some options)) ?kept")
    case (Inl err)
    then show ?thesis by (simp add: pipeline_def)
  next
    case (Inr promises)
    obtain obs c where ea: "each ?kept 0 (zip promises ?kept) = (obs, c)"
      by (cases "each ?kept 0 (zip promises ?kept)") auto
    from each_percentages [of ?kept 0 "zip promises ?kept"] ea
    have "prefix (percentages obs) (?all (length (zip promises ?kept)))" by simp
    moreover have "prefix (?all (length (zip promises ?kept))) (?all (length ?kept))"
      by (rule prefix_upto) simp
    ultimately have "prefix (percentages obs) (?all (length ?kept))" by (rule prefix_order.trans)
    with Inr ea show ?thesis by (cases c) (simp_all add: pipeline_def percentages_append)
  qed
qed

lemma progress_properties:
  assumes "execute e image_path operations options = Inr ex"
    and "kept = filterWhenMatches operations (Some (effective_options e options))"
    and "length kept < 2 ^ 32"
  shows "prefix (percentages (trace ex))
           (map (\<lambda>i. getOperationProgress i kept) [0..<length kept])
       \<and> (\<forall>i < length kept.
             getOperationProgress i kept = Finite (fl (of_int (tenths i (length kept)) / 10))
             \<and> \<bar>of_int (tenths i (length kept)) / 10
                  - of_nat (i + 1) / of_nat (length kept) * 100\<bar> \<le> (1::rat) / 20
             \<and> (\<forall>j. i \<le> j \<and> j < length kept \<longrightarrow>
                   fl (of_int (tenths i (length kept)) / 10)
                     \<le> fl (of_int (tenths j (length kept)) / 10)))
       \<and> (kept \<noteq> [] \<longrightarrow> getOperationProgress (length kept - 1) kept = Finite 100)"
proof (intro conjI allI impI)
  from assms(1) have "ex = pipeline e image_path operations (effective_options e options)"
    by (simp add: execute_def Let_def split: if_splits)
  with pipeline_percentages [of e image_path operations "effective_options e options"] assms(2)
  show "prefix (percentages (trace ex)) (map (\<lambda>i. getOperationProgress i kept) [0..<length kept])"
    by simp
next
  fix i assume "i < length kept"
  then show "getOperationProgress i kept = Finite (fl (of_int (tenths i (length kept)) / 10))"
    by (intro getOperationProgress_tenths) auto
next
  fix i assume i: "i < length kept"
  from nearest_tenth [OF i assms(3)]
  have "\<bar>of_int (tenths i (length kept))
      - 1000 * (of_nat (i + 1) / of_nat (length kept))\<bar> \<le> (1::rat) / 2"
    by (simp only: times_divide_eq_right)
  then show "\<bar>of_int (tenths i (length kept)) / 10
      - of_nat (i + 1) / of_nat (length kept) * 100\<bar> \<le> (1::rat) / 20"
    by (rule tenth_scale)
next
  fix i j assume "i < length kept" and "i \<le> j \<and> j < length kept"
  then have "0 < length kept" and "i \<le> j" by auto
  then show "fl (of_int (tenths i (length kept)) / 10) \<le> fl (of_int (tenths j (length kept)) / 10)"
    by (rule percentage_mono)
next
  assume k: "kept \<noteq> []"
  then have "0 < length kept" by simp
  then have t: "tenths (length kept - 1) (length kept) = 1000" by (rule tenths_last)
  have "getOperationProgress (length kept - 1) kept
      = Finite (fl (of_int (tenths (length kept - 1) (length kept)) / 10))"
    using k by (rule getOperationProgress_tenths)
  also have "\<dots> = Finite (fl (1000 / 10))" by (simp only: t of_int_numeral)
  also have "\<dots> = Finite 100" by (simp add: fl_100)
  finally show "getOperationProgress (length kept - 1) kept = Finite 100" .
qed

lemma invoked_append: "invoked (xs @ ys) = invoked xs @ invoked ys"
  by (induction xs rule: invoked.induct) simp_all

lemma invoked_calls: "invoked (map Call calls) = []"
  by (induction calls) simp_all

lemma invoked_forward: "invoked (map Emit (forward signals)) = []"
  by (induction signals rule: forward.induct) simp_all

lemma each_percentages_invoked:
  "percentages (fst (each operations index ps))
     = map (\<lambda>i. getOperationProgress i operations) (invoked (fst (each operations index ps)))"
proof (induction ps arbitrary: index)
  case Nil
  then show ?case by simp
next
  case (Cons p ps)
  obtain promise operation where p: "p = (promise, operation)" by (cases p) auto
  obtain operation' calls result where r: "promise index = (operation', calls, result)"
    by (cases "promise index") auto
  obtain obs c where ea: "each operations (Suc index) ps = (obs, c)"
    by (cases "each operations (Suc index) ps") auto
  from Cons.IH [of "Suc index"] ea
  have ih: "percentages obs = map (\<lambda>i. getOperationProgress i operations) (invoked obs)"
    by simp
  show ?case using p r ea ih
    by (auto simp: Let_def percentages_append percentages_calls percentages_forward
        invoked_append invoked_calls invoked_forward split: sum.splits completion.splits)
qed

lemma each_invoked_resolved:
  "snd (each operations index ps) = Resolved \<Longrightarrow>
     invoked (fst (each operations index ps)) = [index..<index + length ps]"
proof (induction ps arbitrary: index)
  case Nil
  then show ?case by simp
next
  case (Cons p ps)
  obtain promise operation where p: "p = (promise, operation)" by (cases p) auto
  obtain operation' calls result where r: "promise index = (operation', calls, result)"
    by (cases "promise index") auto
  obtain obs c where ea: "each operations (Suc index) ps = (obs, c)"
    by (cases "each operations (Suc index) ps") auto
  have "[index..<index + length (p # ps)] = index # [Suc index..<index + length (p # ps)]"
    by (rule upt_conv_Cons) simp
  moreover have "index + length (p # ps) = Suc index + length ps" by simp
  ultimately
  have u: "[index..<index + length (p # ps)] = index # [Suc index..<Suc index + length ps]"
    by (simp only:)
  from Cons.prems p r ea have c: "c = Resolved"
    by (auto simp: Let_def split: sum.splits completion.splits)
  with Cons.IH [of "Suc index"] ea
  have ih: "invoked obs = [Suc index..<Suc index + length ps]" by simp
  show ?case unfolding u using Cons.prems p r ea ih
    by (auto simp: Let_def invoked_append invoked_calls invoked_forward
        split: sum.splits completion.splits)
qed

lemma each_invoked_prefix:
  "prefix (invoked (fst (each operations index ps))) [index..<index + length ps]"
proof (induction ps arbitrary: index)
  case Nil
  then show ?case by simp
next
  case (Cons p ps)
  obtain promise operation where p: "p = (promise, operation)" by (cases p) auto
  obtain operation' calls result where r: "promise index = (operation', calls, result)"
    by (cases "promise index") auto
  obtain obs c where ea: "each operations (Suc index) ps = (obs, c)"
    by (cases "each operations (Suc index) ps") auto
  have "[index..<index + length (p # ps)] = index # [Suc index..<index + length (p # ps)]"
    by (rule upt_conv_Cons) simp
  moreover have "index + length (p # ps) = Suc index + length ps" by simp
  ultimately
  have u: "[index..<index + length (p # ps)] = index # [Suc index..<Suc index + length ps]"
    by (simp only:)
  from Cons.IH [of "Suc index"] ea
  have ih: "prefix (invoked obs) [Suc index..<Suc index + length ps]" by simp
  show ?case unfolding u using p r ea ih
    by (auto simp: Let_def invoked_append invoked_calls invoked_forward
        split: sum.splits completion.splits)
qed

lemma map_throwing_length: "map_throwing f xs = Inr ys \<Longrightarrow> length ys = length xs"
  by (induction xs arbitrary: ys) (auto split: sum.splits)

lemma pipeline_invoked:
  "percentages (trace (pipeline e image_path operations options))
     = map (\<lambda>i. getOperationProgress i (filterWhenMatches operations (Some options)))
         (invoked (trace (pipeline e image_path operations options)))
   \<and> prefix (invoked (trace (pipeline e image_path operations options)))
         [0..<length (filterWhenMatches operations (Some options))]
   \<and> (outcome (pipeline e image_path operations options) = Resolved \<longrightarrow>
         invoked (trace (pipeline e image_path operations options))
           = [0..<length (filterWhenMatches operations (Some options))])"
proof -
  let ?kept = "filterWhenMatches operations (Some options)"
  show ?thesis
  proof (cases "map_throwing (\<lambda>operation. run e image_path operation (Some options)) ?kept")
    case (Inl err)
    then show ?thesis by (simp add: pipeline_def)
  next
    case (Inr promises)
    let ?ps = "zip promises ?kept"
    from Inr have len: "length ?ps = length ?kept" by (simp add: map_throwing_length)
    obtain obs c where ea: "each ?kept 0 ?ps = (obs, c)" by (cases "each ?kept 0 ?ps") auto
    from each_percentages_invoked [of ?kept 0 ?ps] ea
    have 1: "percentages obs = map (\<lambda>i. getOperationProgress i ?kept) (invoked obs)" by simp
    from each_invoked_prefix [of ?kept 0 ?ps] ea len
    have 2: "prefix (invoked obs) [0..<length ?kept]" by simp
    from each_invoked_resolved [of ?kept 0 ?ps] ea len
    have 3: "c = Resolved \<longrightarrow> invoked obs = [0..<length ?kept]" by simp
    from Inr ea 1 2 3 show ?thesis
      by (cases c) (simp_all add: pipeline_def percentages_append invoked_append)
  qed
qed

text \<open>
  C3, as the code has it. In a run over \<open>N\<close> kept operations (fewer than \<open>2\<^sup>3\<^sup>2\<close>, the bound
  of an array's length), the \<open>state\<close> events are those of the steps whose action is called,
  which are the steps \<open>0, 1, \<dots>\<close> as far as the run gets and all the \<open>N\<close> steps when the
  run ends resolved; the \<open>state\<close> event of the step \<open>i\<close> has the percentage
  \<open>getOperationProgress i\<close> of the kept operations. That percentage is the number with one
  decimal \<open>tenths i N / 10\<close>, as a binary64 value, and the decimal is a nearest one to
  \<open>(i + 1) / N * 100\<close>: they differ by at most a twentieth. Where the quotient lies exactly
  between two such decimals the binary arithmetic gives the upper or the lower one, see
  \<open>progress_ties\<close>. The percentage does not decrease from a step to a later one (it can
  stay the same, see \<open>progress_repeats\<close>), and for the last step it is exactly 100, which
  is the last percentage of a run that ends resolved.
\<close>

theorem state_percentages:
  assumes "execute e image_path operations options = Inr ex"
    and "kept = filterWhenMatches operations (Some (effective_options e options))"
    and "length kept < 2 ^ 32"
  shows "percentages (trace ex) = map (\<lambda>i. getOperationProgress i kept) (invoked (trace ex))
       \<and> prefix (invoked (trace ex)) [0..<length kept]
       \<and> prefix (percentages (trace ex))
             (map (\<lambda>i. getOperationProgress i kept) [0..<length kept])
       \<and> (outcome ex = Resolved \<longrightarrow>
             invoked (trace ex) = [0..<length kept]
             \<and> percentages (trace ex)
                 = map (\<lambda>i. getOperationProgress i kept) [0..<length kept]
             \<and> (kept \<noteq> [] \<longrightarrow> last (percentages (trace ex)) = Finite 100))
       \<and> (\<forall>i < length kept.
             getOperationProgress i kept = Finite (fl (of_int (tenths i (length kept)) / 10))
             \<and> \<bar>of_int (tenths i (length kept)) / 10
                  - of_nat (i + 1) / of_nat (length kept) * 100\<bar> \<le> (1::rat) / 20
             \<and> (\<forall>j. i \<le> j \<and> j < length kept \<longrightarrow>
                   fl (of_int (tenths i (length kept)) / 10)
                     \<le> fl (of_int (tenths j (length kept)) / 10)))
       \<and> (kept \<noteq> [] \<longrightarrow> getOperationProgress (length kept - 1) kept = Finite 100)"
proof -
  from assms(1) have ex: "ex = pipeline e image_path operations (effective_options e options)"
    by (simp add: execute_def Let_def split: if_splits)
  note p = pipeline_invoked [of e image_path operations "effective_options e options",
      folded assms(2) ex]
  note q = progress_properties [OF assms]
  have 1: "percentages (trace ex) = map (\<lambda>i. getOperationProgress i kept) (invoked (trace ex))"
    using p by blast
  have 2: "prefix (invoked (trace ex)) [0..<length kept]" using p by blast
  have l: "kept \<noteq> [] \<longrightarrow> getOperationProgress (length kept - 1) kept = Finite 100"
    using q by blast
  have 3: "outcome ex = Resolved \<longrightarrow>
             invoked (trace ex) = [0..<length kept]
             \<and> percentages (trace ex)
                 = map (\<lambda>i. getOperationProgress i kept) [0..<length kept]
             \<and> (kept \<noteq> [] \<longrightarrow> last (percentages (trace ex)) = Finite 100)"
  proof
    assume "outcome ex = Resolved"
    with p have i: "invoked (trace ex) = [0..<length kept]" by blast
    with 1 have e: "percentages (trace ex)
        = map (\<lambda>i. getOperationProgress i kept) [0..<length kept]" by simp
    have "kept \<noteq> [] \<longrightarrow> last (percentages (trace ex)) = Finite 100"
    proof
      assume k: "kept \<noteq> []"
      then have "[0..<length kept] \<noteq> []" by simp
      then have "last (map (\<lambda>i. getOperationProgress i kept) [0..<length kept])
          = getOperationProgress (last [0..<length kept]) kept" by (rule last_map)
      also have "last [0..<length kept] = length kept - 1" using k by (simp add: last_upt)
      finally show "last (percentages (trace ex)) = Finite 100" using l k e by simp
    qed
    with i e show "invoked (trace ex) = [0..<length kept]
             \<and> percentages (trace ex)
                 = map (\<lambda>i. getOperationProgress i kept) [0..<length kept]
             \<and> (kept \<noteq> [] \<longrightarrow> last (percentages (trace ex)) = Finite 100)" by blast
  qed
  from 1 2 3 q show ?thesis by blast
qed

theorem state_percentages_witness:
  "percentages (trace (pipeline example_env ''foo/bar.img''
       [example_copy, example_script, example_copy] (effective_options example_env None)))
     = map (\<lambda>i. getOperationProgress i [example_copy, example_script, example_copy]) [0..<3]
   \<and> last (percentages (trace (pipeline example_env ''foo/bar.img''
       [example_copy, example_script, example_copy] (effective_options example_env None))))
     = Finite 100
   \<and> \<bar>of_int (tenths 0 3) / 10 - of_nat (0 + 1) / of_nat 3 * 100\<bar> \<le> (1::rat) / 20
   \<and> fl (of_int (tenths 0 3) / 10) \<le> fl (of_int (tenths 1 3) / 10)
   \<and> getOperationProgress 2 [example_copy, example_script, example_copy] = Finite 100"
proof -
  let ?ops = "[example_copy, example_script, example_copy]"
  let ?opts = "effective_options example_env None"
  let ?ex = "pipeline example_env ''foo/bar.img'' ?ops ?opts"
  have 1: "execute example_env ''foo/bar.img'' ?ops None = Inr ?ex"
    by (simp add: evaluation)
  have 2: "?ops = filterWhenMatches ?ops (Some ?opts)" by (simp add: evaluation)
  have 3: "length ?ops < 2 ^ 32" by simp
  have len: "length ?ops = 3" by simp
  have r: "outcome ?ex = Resolved" by (simp add: evaluation)
  have n: "?ops \<noteq> []" by simp
  note t = state_percentages [OF 1 2 3, unfolded len]
  note s = t [THEN conjunct2, THEN conjunct2, THEN conjunct2]
  from s [THEN conjunct1] r n
  have a: "percentages (trace ?ex) = map (\<lambda>i. getOperationProgress i ?ops) [0..<3]"
    and l: "last (percentages (trace ?ex)) = Finite 100" by blast+
  have 0: "(0::nat) < 3" by simp
  note u = s [THEN conjunct2, THEN conjunct1, rule_format, OF 0]
  note b = u [THEN conjunct2, THEN conjunct1]
  have 01: "(0::nat) \<le> 1 \<and> (1::nat) < 3" by simp
  note d = u [THEN conjunct2, THEN conjunct2, rule_format, OF 01]
  from s [THEN conjunct2, THEN conjunct2] n
  have "getOperationProgress (3 - 1) ?ops = Finite 100" by blast
  then have e: "getOperationProgress 2 ?ops = Finite 100" by simp
  from a l b d e show ?thesis by blast
qed

lemma copy_step_completes:
  "step_completes example_env image_path options index example_copy"
  by (simp add: step_completes_def run_def commands_def call_def copy_def default_image_def
      example_copy_def bare_operation_def example_env_simps Let_def)

lemma copies_all_complete:
  "all_complete example_env image_path options index (replicate n example_copy)"
  by (induction n arbitrary: index) (simp_all add: copy_step_completes)

lemma copies_no_when: "\<forall>operation \<in> set (replicate n example_copy). when operation = None"
  by (simp add: example_copy_def bare_operation_def)

text \<open>
  C3 as stated fails: in a run of 80 copies, step 22 has the quotient
  \<open>23 / 80 * 100 = 28.75\<close>, which rounds to 28.8 whether a tie goes up or to the even
  digit, and the \<open>state\<close> event of the step has the percentage 28.7, another number.
\<close>

theorem progress_tie_rounds_down:
  "execute example_env ''foo/bar.img'' (replicate 80 example_copy) None
     = Inr (pipeline example_env ''foo/bar.img'' (replicate 80 example_copy)
         (effective_options example_env None))
   \<and> percentages (trace (pipeline example_env ''foo/bar.img'' (replicate 80 example_copy)
         (effective_options example_env None))) ! 22 = Finite (fl (287 / 10))
   \<and> (of_nat (22 + 1) / of_nat 80 * 100 :: rat) = 2875 / 100
   \<and> toFixed1 (2875 / 100) = 288
   \<and> roundEven (2875 / 100 * 10) = 288
   \<and> fl (287 / 10) \<noteq> fl (288 / 10)"
proof -
  let ?ops = "replicate 80 example_copy"
  let ?opts = "effective_options example_env None"
  let ?ex = "pipeline example_env ''foo/bar.img'' ?ops ?opts"
  have f: "filterWhenMatches ?ops (Some ?opts) = ?ops"
    using copies_no_when by (rule no_when_filter)
  have 1: "execute example_env ''foo/bar.img'' ?ops None = Inr ?ex"
    using copies_no_when [of 80] by (simp add: execute_def Let_def no_when_missing)
  from pipeline_all_complete [OF f copies_all_complete]
  have r: "outcome ?ex = Resolved" by blast
  with pipeline_invoked [of example_env "''foo/bar.img''" ?ops ?opts]
  have "percentages (trace ?ex) = map (\<lambda>i. getOperationProgress i ?ops) [0..<length ?ops]"
    unfolding f by simp
  then have "percentages (trace ?ex) ! 22 = getOperationProgress 22 ?ops" by simp
  also have "\<dots> = Finite (fl (287 / 10))" by code_simp
  finally have 2: "percentages (trace ?ex) ! 22 = Finite (fl (287 / 10))" .
  have 3: "(of_nat (22 + 1) / of_nat 80 * 100 :: rat) = 2875 / 100
   \<and> toFixed1 (2875 / 100) = 288
   \<and> roundEven (2875 / 100 * 10) = 288
   \<and> fl (287 / 10) \<noteq> fl (288 / 10)" by code_simp
  from 1 2 3 show ?thesis by blast
qed

text \<open>
  Two quotients that lie between two decimals: step 22 of 80 has the quotient 28.75 and
  the progress 28.7, step 0 of 16 has the quotient 6.25 and the progress 6.3.
\<close>

lemma progress_ties: "tenths 22 80 = 287 \<and> tenths 0 16 = 63"
  by code_simp

text \<open>
  With more than 1000 steps two steps can have the same progress: of 1001 steps, the steps
  499 and 500 both have 50.0.
\<close>

lemma progress_repeats: "tenths 499 1001 = 500 \<and> tenths 500 1001 = 500"
  by code_simp

end
